theory Spec2Isabelle
  imports Main "HOL-Library.Sublist" "HOL-Library.Word"
begin

section \<open>C strings\<close>

text \<open>
  A C string is modelled by its content: the bytes before the terminating NUL. The
  terminator is written out only where a buffer is modelled byte by byte (the output
  accumulator of \<open>_iconvert\<close>).
\<close>

abbreviation SQUOTE :: char where "SQUOTE \<equiv> CHR 0x27"
abbreviation BSLASH :: char where "BSLASH \<equiv> CHR 0x5C"
abbreviation NUL :: char where "NUL \<equiv> CHR 0x00"

text \<open>\<open>strncat(dst, src, n)\<close>: appends at most \<open>n\<close> bytes of \<open>src\<close>.\<close>

definition strncat :: "string \<Rightarrow> string \<Rightarrow> nat \<Rightarrow> string" where
  "strncat dst src n = dst @ take n src"

text \<open>
  \<open>strlcat(dst, src, size)\<close>: appends as much of \<open>src\<close> as leaves the result, with its
  terminator, within \<open>size\<close> bytes; a destination already that long is left alone.
\<close>

definition strlcat :: "string \<Rightarrow> string \<Rightarrow> nat \<Rightarrow> string" where
  "strlcat dst src siz =
     (if siz \<le> length dst then dst else dst @ take (siz - length dst - 1) src)"

text \<open>\<open>strlcpy(dst, src, size)\<close>: copies at most \<open>size - 1\<close> bytes; nothing when \<open>size = 0\<close>.\<close>

definition strlcpy :: "string \<Rightarrow> nat \<Rightarrow> string" where
  "strlcpy src siz = take (siz - 1) src"

text \<open>\<open>strstr(haystack, needle)\<close>: the offset of the first occurrence, \<open>None\<close> for NULL.\<close>

fun strstr :: "string \<Rightarrow> string \<Rightarrow> nat option" where
  "strstr [] needle = (if needle = [] then Some 0 else None)"
| "strstr (c # cs) needle =
     (if prefix needle (c # cs) then Some 0 else map_option Suc (strstr cs needle))"

text \<open>\<open>strchr(s, c)\<close> for a byte \<open>c\<close> other than NUL: the offset of its first occurrence.\<close>

fun strchr :: "string \<Rightarrow> char \<Rightarrow> nat option" where
  "strchr [] c = None"
| "strchr (x # xs) c = (if x = c then Some 0 else map_option Suc (strchr xs c))"

section \<open>\<open>util_shellquote\<close>\<close>

definition SHELLQUOTE_INLEN_MAX :: nat where
  "SHELLQUOTE_INLEN_MAX = 8191"

text \<open>
  The copy loop of \<open>util_shellquote\<close>: the remaining input (from \<open>in_p\<close>), the budget
  \<open>out_len\<close> and the bytes written so far (from \<open>out\<close> to \<open>out_p\<close>). The loop runs
  while input remains and \<open>out_len > 2\<close>. The budget never drops below 1 inside the
  loop, so the unsigned decrements do not wrap.
\<close>

fun shellquote_loop :: "string \<Rightarrow> nat \<Rightarrow> string \<Rightarrow> string" where
  "shellquote_loop [] out_len out = out"
| "shellquote_loop (c # cs) out_len out =
     (if out_len > 2 then
        (if c = SQUOTE \<or> c = BSLASH
         then shellquote_loop cs (out_len - 1 - 1) (out @ [BSLASH] @ [c])
         else shellquote_loop cs (out_len - 1) (out @ [c]))
      else out)"

text \<open>The number of bytes \<open>util_shellquote\<close> asks \<open>xcalloc\<close> for.\<close>

definition shellquote_bufsize :: "string \<Rightarrow> nat" where
  "shellquote_bufsize inp =
     (let out_len = (if length inp > SHELLQUOTE_INLEN_MAX then SHELLQUOTE_INLEN_MAX
                     else length inp);
          out_len = out_len * 2 + 2
      in out_len + 1)"

definition util_shellquote :: "string \<Rightarrow> string" where
  "util_shellquote inp =
     (let out_len = (if length inp > SHELLQUOTE_INLEN_MAX then SHELLQUOTE_INLEN_MAX
                     else length inp);
          out_len = out_len * 2 + 2;
          out = [SQUOTE];
          out_len = out_len - 1;
          out = shellquote_loop inp out_len out
      in out @ [SQUOTE])"

text \<open>The quoting the specification describes, without any cap.\<close>

definition shell_escape :: "char \<Rightarrow> string" where
  "shell_escape c = (if c = SQUOTE \<or> c = BSLASH then [BSLASH, c] else [c])"

definition shell_quote_spec :: "string \<Rightarrow> string" where
  "shell_quote_spec inp = [SQUOTE] @ concat (map shell_escape inp) @ [SQUOTE]"

section \<open>\<open>util_replacestring\<close>\<close>

text \<open>
  The result of \<open>util_replacestring\<close> with what the call did on the way: the string
  handed to the caller, the size of the buffer allocated for it, and the quoted
  replacement that was built (and freed) whether or not it was used.
\<close>

record replace_result =
  dest :: string
  dest_size :: nat
  to_quoted :: string

definition util_replacestring :: "string \<Rightarrow> string \<Rightarrow> string \<Rightarrow> replace_result" where
  "util_replacestring source from to =
     (let quoted = util_shellquote to;
          dsize = length source + length quoted + 1;
          d = [];
          p1 = source
      in case strstr p1 from of
           Some off \<Rightarrow>
             (let d = strncat d p1 off;
                  d = strlcat d quoted dsize;
                  p1 = drop (off + length from) p1
              in \<lparr>dest = strlcat d p1 dsize, dest_size = dsize, to_quoted = quoted\<rparr>)
         | None \<Rightarrow> \<lparr>dest = strlcat d p1 dsize, dest_size = dsize, to_quoted = quoted\<rparr>)"


section \<open>\<open>util_urlparse\<close>\<close>

text \<open>\<open>strncmp(s1, s2, n) == 0\<close>: the first \<open>n\<close> bytes agree (or both strings end before).\<close>

definition strncmp_eq :: "string \<Rightarrow> string \<Rightarrow> nat \<Rightarrow> bool" where
  "strncmp_eq s1 s2 n \<longleftrightarrow> take n s1 = take n s2"

text \<open>
  Modelled from the spec: \<open>strtonum\<close> comes from the compatibility layer
  (\<open>compat.h\<close>), which is not among the sources. The specification asks that the
  port text "parse as an integer in \<open>[1, 65535]\<close>". The model reads that as
  \<open>strtonum(3)\<close> does: \<open>strtoll\<close> in base 10 (white space, an optional sign, digits),
  the whole string has to be consumed, the value has to lie in \<open>[minval, maxval]\<close>;
  on error the value returned is 0 and the error string is set.
\<close>

definition isspace :: "char \<Rightarrow> bool" where
  "isspace c \<longleftrightarrow> c \<in> set [CHR '' '', CHR 0x09, CHR 0x0A, CHR 0x0B, CHR 0x0C, CHR 0x0D]"

definition isdigit :: "char \<Rightarrow> bool" where
  "isdigit c \<longleftrightarrow> c \<in> set ''0123456789''"

definition digit_val :: "char \<Rightarrow> int" where
  "digit_val c = int (of_char c) - 48"

definition digits_val :: "string \<Rightarrow> int" where
  "digits_val ds = foldl (\<lambda>acc c. acc * 10 + digit_val c) 0 ds"

text \<open>
  \<open>strtoll(s, &ep, 10)\<close>: the value and the unparsed rest (from \<open>ep\<close>); \<open>None\<close> when
  there is no digit to convert (\<open>ep == s\<close>). Values are not clamped to
  \<open>long long\<close>: a clamped value fails the same range test in \<open>strtonum\<close>.
\<close>

definition strtoll10 :: "string \<Rightarrow> (int \<times> string) option" where
  "strtoll10 s =
     (let s1 = dropWhile isspace s;
          neg = (case s1 of c # _ \<Rightarrow> c = CHR ''-'' | [] \<Rightarrow> False);
          s2 = (case s1 of c # r \<Rightarrow> if c = CHR ''-'' \<or> c = CHR ''+'' then r else s1
                | [] \<Rightarrow> s1);
          ds = takeWhile isdigit s2
      in if ds = [] then None
         else Some (if neg then - digits_val ds else digits_val ds, dropWhile isdigit s2))"

definition strtonum :: "string \<Rightarrow> int \<Rightarrow> int \<Rightarrow> int \<times> string option" where
  "strtonum numstr minval maxval =
     (if minval > maxval then (0, Some ''invalid'')
      else case strtoll10 numstr of
             None \<Rightarrow> (0, Some ''invalid'')
           | Some (ll, ep) \<Rightarrow>
               if ep \<noteq> [] then (0, Some ''invalid'')
               else if ll < minval then (0, Some ''too small'')
               else if ll > maxval then (0, Some ''too large'')
               else (ll, None))"

definition USHRT_MAX :: int where
  "USHRT_MAX = 65535"

text \<open>
  The memory the parser touches. The heap is a list of blocks, addressed by index: a
  live block holds its string, a freed one holds nothing. \<open>xmalloc\<close> takes the next
  index, so an address is never handed out twice. The three cells are the caller's
  variables behind \<open>hostname\<close>, \<open>port\<close> and \<open>mountname\<close>; a pointer is an address or
  NULL (\<open>None\<close>). \<open>errlog\<close> collects the lines passed to \<open>log_error\<close>.
\<close>

type_synonym addr = nat

record url_state =
  hostname_cell :: "addr option"
  port_cell :: "16 word"
  mountname_cell :: "addr option"
  heap :: "string option list"
  errlog :: "string list"

definition live :: "string option list \<Rightarrow> addr \<Rightarrow> string option" where
  "live h a = (if a < length h then h ! a else None)"

definition xmalloc :: "string option list \<Rightarrow> addr \<times> string option list" where
  "xmalloc h = (length h, h @ [Some []])"

definition store :: "string option list \<Rightarrow> addr option \<Rightarrow> string \<Rightarrow> string option list" where
  "store h p v = (case p of Some a \<Rightarrow> h[a := Some v] | None \<Rightarrow> h)"

text \<open>
  Modelled from the spec: \<open>xmalloc\<close> and \<open>xfree\<close> come from \<open>xalloc.h\<close>, which is not
  among the sources; the specification only says that allocation follows the policy
  of the platform's allocator wrapper. \<open>xmalloc\<close> returns a fresh block and never
  NULL. \<open>xfree\<close> is applied to a pointer variable and frees the block it points to.
  Whether it also stores NULL in that variable cannot be read from the sources, so
  that is a parameter: with \<open>stores_null\<close> the variable is NULL afterwards, without
  it the variable keeps the address. The result is the heap and the variable.
\<close>

definition xfree ::
  "bool \<Rightarrow> string option list \<Rightarrow> addr option \<Rightarrow> string option list \<times> addr option" where
  "xfree stores_null h p =
     (case p of
        Some a \<Rightarrow> (h[a := None], if stores_null then None else Some a)
      | None \<Rightarrow> (h, None))"

definition log_error :: "string \<Rightarrow> url_state \<Rightarrow> url_state" where
  "log_error msg s = s\<lparr>errlog := errlog s @ [msg]\<rparr>"

text \<open>The failure exit taken after the host was copied: log, free the host, return 0.\<close>

definition urlparse_fail :: "bool \<Rightarrow> string \<Rightarrow> url_state \<Rightarrow> int \<times> url_state" where
  "urlparse_fail stores_null msg s =
     (let s = log_error msg s;
          (h, p) = xfree stores_null (heap s) (hostname_cell s);
          s = s\<lparr>heap := h, hostname_cell := p\<rparr>
      in (0, s))"

definition util_urlparse :: "bool \<Rightarrow> string \<Rightarrow> url_state \<Rightarrow> int \<times> url_state" where
  "util_urlparse stores_null url s =
     (if \<not> strncmp_eq url ''http://'' (length ''http://'') then
        (0, log_error ''invalid <url>: not an HTTP address'' s)
      else
        let p1 = drop (length ''http://'') url in
        case strchr p1 (CHR '':'') of
          None \<Rightarrow> (0, log_error ''invalid <url>: missing port'' s)
        | Some off2 \<Rightarrow>
            let hostsiz = off2 + 1 in
            if hostsiz \<le> 1 then (0, log_error ''invalid <url>: missing host'' s)
            else
              let (a, h) = xmalloc (heap s);
                  s = s\<lparr>hostname_cell := Some a, heap := h\<rparr>;
                  s = s\<lparr>heap := store (heap s) (hostname_cell s) (strlcpy p1 hostsiz)\<rparr>;
                  p2 = drop (off2 + 1) p1
              in case strchr p2 (CHR ''/'') of
                   None \<Rightarrow>
                     urlparse_fail stores_null ''invalid <url>: mountpoint missing, or port number too long'' s
                 | Some off3 \<Rightarrow>
                     if off3 \<ge> 6 then
                       urlparse_fail stores_null ''invalid <url>: mountpoint missing, or port number too long'' s
                     else
                       let p3 = drop off3 p2;
                           tmpPort = strlcpy p2 (off3 + 1);
                           (v, errstr) = strtonum tmpPort 1 USHRT_MAX;
                           s = s\<lparr>port_cell := word_of_int v\<rparr>
                       in case errstr of
                            Some e \<Rightarrow>
                              urlparse_fail stores_null (''invalid <url>: port: '' @ tmpPort @ '' is '' @ e) s
                          | None \<Rightarrow>
                              let mountsiz = length p3 + 1;
                                  (b, h) = xmalloc (heap s);
                                  s = s\<lparr>mountname_cell := Some b, heap := h\<rparr>;
                                  s = s\<lparr>heap := store (heap s) (mountname_cell s)
                                                   (strlcpy p3 mountsiz)\<rparr>
                              in (1, s))"

text \<open>
  The parser as the specification describes it: the five failures in their order,
  and the three parts on success. The port text "parses as an integer in
  \<open>[1, 65535]\<close>" when \<open>strtonum\<close> accepts it.
\<close>

datatype url_error = InvalidScheme | MissingPort | MissingHost | MalformedMount | InvalidPort

definition port_of_text :: "string \<Rightarrow> nat option" where
  "port_of_text txt =
     (case strtoll10 txt of
        Some (v, rest) \<Rightarrow> if rest = [] \<and> 1 \<le> v \<and> v \<le> 65535 then Some (nat v) else None
      | None \<Rightarrow> None)"

definition parse_stream_url :: "string \<Rightarrow> url_error + string \<times> nat \<times> string" where
  "parse_stream_url url =
     (if \<not> prefix ''http://'' url then Inl InvalidScheme
      else
        let rest = drop 7 url;
            host = takeWhile (\<lambda>c. c \<noteq> CHR '':'') rest;
            after = drop 1 (dropWhile (\<lambda>c. c \<noteq> CHR '':'') rest);
            ptxt = takeWhile (\<lambda>c. c \<noteq> CHR ''/'') after;
            mount = dropWhile (\<lambda>c. c \<noteq> CHR ''/'') after
        in if CHR '':'' \<notin> set rest then Inl MissingPort
           else if host = [] then Inl MissingHost
           else if CHR ''/'' \<notin> set after \<or> length ptxt > 5 then Inl MalformedMount
           else case port_of_text ptxt of
                  None \<Rightarrow> Inl InvalidPort
                | Some p \<Rightarrow> Inr (host, p, mount))"

text \<open>The diagnostic each failure of the specification is logged with.\<close>

fun url_diagnostic :: "url_error \<Rightarrow> string \<Rightarrow> bool" where
  "url_diagnostic InvalidScheme msg \<longleftrightarrow> msg = ''invalid <url>: not an HTTP address''"
| "url_diagnostic MissingPort msg \<longleftrightarrow> msg = ''invalid <url>: missing port''"
| "url_diagnostic MissingHost msg \<longleftrightarrow> msg = ''invalid <url>: missing host''"
| "url_diagnostic MalformedMount msg \<longleftrightarrow>
     msg = ''invalid <url>: mountpoint missing, or port number too long''"
| "url_diagnostic InvalidPort msg \<longleftrightarrow> prefix ''invalid <url>: port: '' msg"

section \<open>The pid-file: \<open>util_write_pid_file\<close> and \<open>_cleanup_pidfile\<close>\<close>

text \<open>
  What the operating system answers during one call: the process id, and whether
  \<open>fopen\<close>, \<open>fprintf\<close>, \<open>fflush\<close>, \<open>flock\<close> and \<open>atexit\<close> succeed.
\<close>

record pid_env =
  getpid :: int
  fopen_ok :: bool
  fprintf_ok :: bool
  fflush_ok :: bool
  flock_ok :: bool
  atexit_ok :: bool

text \<open>
  The four static variables of the module, and the part of the process and of the file
  system they act on: the files by path with their content, the table of \<open>FILE\<close>
  handles (a handle is an index; an open handle holds its path), the handles that hold
  a lock, and the number of times \<open>_cleanup_pidfile\<close> has been registered with
  \<open>atexit\<close>. \<open>ub\<close> records that \<open>fclose\<close> was called on something that is not an
  open handle. Output is written through to the file; \<open>errno\<close> is not modelled.
\<close>

record pid_state =
  pidfile_path :: "string option"
  pidfile_file :: "nat option"
  pidfile_pid :: int
  pidfile_numlocks :: nat
  files :: "string \<Rightarrow> string option"
  handles :: "string option list"
  locked :: "nat set"
  atexit_hooks :: nat
  ub :: bool

definition is_open :: "pid_state \<Rightarrow> nat \<Rightarrow> bool" where
  "is_open s h \<longleftrightarrow> h < length (handles s) \<and> handles s ! h \<noteq> None"

definition fclose :: "nat option \<Rightarrow> pid_state \<Rightarrow> pid_state" where
  "fclose f s =
     (case f of
        Some h \<Rightarrow>
          if is_open s h then s\<lparr>handles := (handles s)[h := None], locked := locked s - {h}\<rparr>
          else s\<lparr>ub := True\<rparr>
      | None \<Rightarrow> s\<lparr>ub := True\<rparr>)"

text \<open>\<open>fopen(path, "w")\<close>: creates or truncates the file; \<open>None\<close> is NULL.\<close>

definition fopen_w :: "pid_env \<Rightarrow> string \<Rightarrow> pid_state \<Rightarrow> nat option \<times> pid_state" where
  "fopen_w e p s =
     (if fopen_ok e then
        (Some (length (handles s)),
         s\<lparr>files := (files s)(p \<mapsto> []), handles := handles s @ [Some p]\<rparr>)
      else (None, s))"

definition unlink :: "string \<Rightarrow> pid_state \<Rightarrow> pid_state" where
  "unlink p s = s\<lparr>files := (files s)(p := None)\<rparr>"

fun decimal :: "nat \<Rightarrow> string" where
  "decimal n = (if n < 10 then [char_of (48 + n)] else decimal (n div 10) @ [char_of (48 + n mod 10)])"

definition show_long :: "int \<Rightarrow> string" where
  "show_long i = (if i < 0 then ''-'' @ decimal (nat (- i)) else decimal (nat i))"

text \<open>\<open>fprintf(f, "%ld\n", pid)\<close> on an open handle: appends to the file behind it.\<close>

definition fprintf_pid :: "nat \<Rightarrow> int \<Rightarrow> pid_state \<Rightarrow> pid_state" where
  "fprintf_pid h pid s =
     (case handles s ! h of
        Some p \<Rightarrow>
          (case files s p of
             Some content \<Rightarrow> s\<lparr>files := (files s)(p \<mapsto> content @ show_long pid @ [CHR 0x0A])\<rparr>
           | None \<Rightarrow> s)
      | None \<Rightarrow> s)"

definition flock_ex :: "nat \<Rightarrow> pid_state \<Rightarrow> pid_state" where
  "flock_ex h s = s\<lparr>locked := insert h (locked s)\<rparr>"

text \<open>\<open>_cleanup_pidfile\<close>, run in the process \<open>cur_pid\<close>.\<close>

definition cleanup_pidfile :: "int \<Rightarrow> pid_state \<Rightarrow> pid_state" where
  "cleanup_pidfile cur_pid s =
     (case pidfile_path s of
        Some p \<Rightarrow>
          if cur_pid = pidfile_pid s then
            (let s = unlink p s in fclose (pidfile_file s) s)
          else s
      | None \<Rightarrow> s)"

text \<open>The \<open>error:\<close> exit of \<open>util_write_pid_file\<close>; it is reached with a path set.\<close>

definition pidfile_error :: "pid_state \<Rightarrow> int \<times> pid_state" where
  "pidfile_error s =
     (let s = (case pidfile_path s of Some p \<Rightarrow> unlink p s | None \<Rightarrow> s);
          s = s\<lparr>pidfile_path := None\<rparr>;
          s = fclose (pidfile_file s) s;
          s = s\<lparr>pidfile_file := None\<rparr>;
          s = s\<lparr>pidfile_pid := 0\<rparr>
      in (- 1, s))"

definition util_write_pid_file :: "pid_env \<Rightarrow> string option \<Rightarrow> pid_state \<Rightarrow> int \<times> pid_state" where
  "util_write_pid_file e path s =
     (case path of
        None \<Rightarrow> (0, s)
      | Some p \<Rightarrow>
          let s = s\<lparr>pidfile_path := Some p\<rparr>;
              s = (if pidfile_file s \<noteq> None then fclose (pidfile_file s) s else s)
          in case fopen_w e p s of
               (None, s) \<Rightarrow> (- 1, s\<lparr>pidfile_file := None, pidfile_path := None\<rparr>)
             | (Some h, s) \<Rightarrow>
                 let s = s\<lparr>pidfile_file := Some h\<rparr>;
                     pid = getpid e
                 in if \<not> fprintf_ok e then pidfile_error s
                    else let s = fprintf_pid h pid s in
                      if \<not> fflush_ok e then pidfile_error s
                      else if \<not> flock_ok e then pidfile_error s
                      else let s = flock_ex h s in
                        if pidfile_numlocks s = 0 then
                          let s = s\<lparr>pidfile_pid := pid\<rparr> in
                          if \<not> atexit_ok e then pidfile_error s
                          else
                            let s = s\<lparr>atexit_hooks := atexit_hooks s + 1\<rparr>;
                                s = s\<lparr>pidfile_numlocks := pidfile_numlocks s + 1\<rparr>
                            in (0, s)
                        else (0, s))"

text \<open>Normal exit: every registered hook runs once, in the process \<open>cur_pid\<close>.\<close>

definition run_atexit :: "int \<Rightarrow> pid_state \<Rightarrow> pid_state" where
  "run_atexit cur_pid s = ((cleanup_pidfile cur_pid) ^^ atexit_hooks s) s"

text \<open>The state at program start: the statics are zero, no hook is registered.\<close>

definition pid_state0 :: "(string \<Rightarrow> string option) \<Rightarrow> pid_state" where
  "pid_state0 fs =
     \<lparr>pidfile_path = None, pidfile_file = None, pidfile_pid = 0, pidfile_numlocks = 0,
      files = fs, handles = [], locked = {}, atexit_hooks = 0, ub = False\<rparr>"

text \<open>An environment in which every call succeeds, for the process \<open>pid\<close>.\<close>

definition pid_env_ok :: "int \<Rightarrow> pid_env" where
  "pid_env_ok pid =
     \<lparr>getpid = pid, fopen_ok = True, fprintf_ok = True, fflush_ok = True, flock_ok = True,
      atexit_ok = True\<rparr>"

section \<open>\<open>_iconvert\<close>\<close>

text \<open>
  Modelled from the spec: the mode selectors \<open>ICONV_REPLACE\<close>, \<open>ICONV_TRANSLIT\<close> and
  \<open>ICONV_IGNORE\<close> are declared in \<open>util.h\<close>, which is not among the sources. They are
  three distinct integer constants (the labels of one \<open>switch\<close>), for the modes
  ReplaceWithPlaceholder, Transliterate and Ignore.
\<close>

definition ICONV_REPLACE :: int where "ICONV_REPLACE = 0"
definition ICONV_TRANSLIT :: int where "ICONV_TRANSLIT = 1"
definition ICONV_IGNORE :: int where "ICONV_IGNORE = 2"

datatype errno = E2BIG | EILSEQ | EINVAL | Errno nat

text \<open>
  One call \<open>iconv(cd, &ip, &input_len, &bp, &bufavail)\<close>, as the caller sees it: the
  converter afterwards, the number of input bytes consumed (\<open>ip\<close> advances and
  \<open>input_len\<close> drops by it), the bytes written at \<open>bp\<close> (\<open>bp\<close> advances and \<open>bufavail\<close>
  drops by their number), and \<open>errno\<close> when the call returns \<open>(size_t)-1\<close>.
\<close>

record 'cd iconv_result =
  ir_cd :: 'cd
  ir_consumed :: nat
  ir_produced :: string
  ir_errno :: "errno option"

text \<open>
  What the platform provides is a parameter of the model. The conversion library:
  \<open>iconv_open tocode fromcode\<close> (\<open>Inl\<close> is \<open>(iconv_t)-1\<close> with \<open>errno\<close>), \<open>iconv\<close> on a
  converter, the unconsumed input and the room left in the buffer, and
  \<open>iconv_close\<close> (\<open>Some\<close> is -1 with \<open>errno\<close>). \<open>junk\<close> is the content of memory that
  \<open>xreallocarray\<close> adds. \<open>BUFSIZ\<close> is the constant of \<open><stdio.h>\<close>, the size of
  the chunk buffer (the value 1024 in the source stands in only where \<open><stdio.h>\<close>
  defines none).
\<close>

record 'cd iconv_env =
  iconv_open :: "string \<Rightarrow> string \<Rightarrow> errno + 'cd"
  iconv :: "'cd \<Rightarrow> string \<Rightarrow> nat \<Rightarrow> 'cd iconv_result"
  iconv_close :: "'cd \<Rightarrow> errno option"
  junk :: "nat \<Rightarrow> char"
  BUFSIZ :: nat

text \<open>What a call of \<open>_iconvert\<close> does that can be observed from outside, in order.\<close>

datatype event =
    Iconv_open string string
  | Iconv_close
  | Log_syserr errno string
  | Xfree_tocode
  | Xfree_output

text \<open>
  The pointer \<open>_iconvert\<close> returns: a fresh copy made by \<open>xstrdup\<close>, or the output
  accumulator (read as a C string, up to its first NUL).
\<close>

datatype owned = Xstrdup string | Output string

text \<open>
  Where the source leaves defined behaviour, both times in the branch that stores the
  placeholder. \<open>Chunk_overrun\<close>: \<open>iconv\<close> has filled the chunk buffer up to the byte
  kept for the terminator (\<open>bufavail\<close> is 0); the placeholder takes that byte and the
  terminator is stored at \<open>buf[BUFSIZ]\<close>, one byte past the buffer. \<open>Input_overrun\<close>:
  \<open>iconv\<close> reports the error with no input left; \<open>input_len--\<close> wraps around and the
  loop goes on reading past the end of the input. The model stops at either.
\<close>

datatype fault = Chunk_overrun | Input_overrun

text \<open>\<open>size_t\<close>, for the two variables that can wrap around: \<open>bufavail\<close> and \<open>count\<close>.\<close>

type_synonym size_t = "64 word"

definition snprintf :: "nat \<Rightarrow> string \<Rightarrow> string" where
  "snprintf siz formatted = take (siz - 1) formatted"

text \<open>The \<open>switch (mode)\<close>: the name the target converter is asked for.\<close>

definition qualified_target :: "string \<Rightarrow> int \<Rightarrow> string" where
  "qualified_target to mode =
     (if mode = ICONV_TRANSLIT then
        (let siz = length to + length ''//TRANSLIT'' + 1 in snprintf siz (to @ ''//TRANSLIT''))
      else if mode = ICONV_IGNORE then
        (let siz = length to + length ''//IGNORE'' + 1 in snprintf siz (to @ ''//IGNORE''))
      else to)"

text \<open>
  The three \<open>iconv_open\<close> calls joined by \<open>&&\<close>: the calls made, and the converter or
  the \<open>errno\<close> of the last call.
\<close>

definition open_converter ::
  "'cd iconv_env \<Rightarrow> string \<Rightarrow> string \<Rightarrow> event list \<times> (errno + 'cd)" where
  "open_converter env tocode from =
     (case iconv_open env tocode from of
        Inr cd \<Rightarrow> ([Iconv_open tocode from], Inr cd)
      | Inl _ \<Rightarrow>
          (case iconv_open env [] from of
             Inr cd \<Rightarrow> ([Iconv_open tocode from, Iconv_open [] from], Inr cd)
           | Inl _ \<Rightarrow>
               (case iconv_open env tocode [] of
                  Inr cd \<Rightarrow>
                    ([Iconv_open tocode from, Iconv_open [] from, Iconv_open tocode []],
                     Inr cd)
                | Inl e \<Rightarrow>
                    ([Iconv_open tocode from, Iconv_open [] from, Iconv_open tocode []],
                     Inl e))))"

text \<open>
  The variables of the conversion loop: the converter, the unconsumed input (\<open>ip\<close>;
  \<open>input_len\<close> is its length), and the accumulator, all \<open>output_size\<close> bytes of it.
\<close>

record 'cd loop_state =
  ls_cd :: 'cd
  ls_ip :: string
  ls_output :: string
  ls_output_size :: nat
  ls_out_pos :: nat

text \<open>\<open>xcalloc(1, 1)\<close> and the terminator stored at \<open>out_pos = 0\<close>.\<close>

definition iconvert_init :: "'cd \<Rightarrow> string \<Rightarrow> 'cd loop_state" where
  "iconvert_init cd inp =
     \<lparr>ls_cd = cd, ls_ip = inp, ls_output = (replicate 1 NUL)[0 := NUL], ls_output_size = 1,
      ls_out_pos = 0\<rparr>"

text \<open>\<open>sizeof(buf) - 1\<close>, the value \<open>bufavail\<close> starts every iteration with.\<close>

definition chunk_room :: "'cd iconv_env \<Rightarrow> size_t" where
  "chunk_room env = of_nat (BUFSIZ env) - 1"

text \<open>
  The first half of the loop body: the call of \<open>iconv\<close> on an empty chunk buffer and
  the placeholder. The result is the converter, the input left, the bytes of the
  chunk buffer from \<open>buf\<close> to \<open>bp\<close>, and \<open>bufavail\<close>; or the fault.
\<close>

definition iconvert_convert ::
  "'cd iconv_env \<Rightarrow> 'cd \<Rightarrow> string \<Rightarrow> fault + 'cd \<times> string \<times> string \<times> size_t" where
  "iconvert_convert env cd ip =
     (let bufavail = chunk_room env;
          r = iconv env cd ip (unat bufavail);
          ip = drop (ir_consumed r) ip;
          buf = ir_produced r;
          bufavail = bufavail - of_nat (length (ir_produced r))
      in if ir_errno r \<noteq> None \<and> ir_errno r \<noteq> Some E2BIG then
           (if bufavail = 0 then Inl Chunk_overrun
            else if ip = [] then Inl Input_overrun
            else Inr (ir_cd r, drop 1 ip, buf @ ''?'', bufavail - 1))
         else Inr (ir_cd r, ip, buf, bufavail))"

text \<open>\<open>xreallocarray(p, n, 1)\<close>: the old bytes, cut or followed by new ones.\<close>

definition xreallocarray :: "(nat \<Rightarrow> char) \<Rightarrow> string \<Rightarrow> nat \<Rightarrow> string" where
  "xreallocarray fill old n = take n old @ map fill [length old..<n]"

text \<open>\<open>memcpy(dst + pos, src, count)\<close> within \<open>dst\<close>.\<close>

definition memcpy_at :: "string \<Rightarrow> nat \<Rightarrow> string \<Rightarrow> nat \<Rightarrow> string" where
  "memcpy_at dst pos src count = take pos dst @ take count src @ drop (pos + count) dst"

text \<open>\<open>count = sizeof(buf) - bufavail - 1\<close>, in \<open>size_t\<close>.\<close>

definition chunk_count :: "'cd iconv_env \<Rightarrow> size_t \<Rightarrow> nat" where
  "chunk_count env bufavail = unat (of_nat (BUFSIZ env) - bufavail - 1 :: size_t)"

text \<open>
  The second half of the loop body: the chunk is appended to the accumulator. The
  store of the terminator is within the accumulator whenever \<open>out_pos < output_size\<close>
  held before, which it does from the start.
\<close>

definition iconvert_append ::
  "'cd iconv_env \<Rightarrow> string \<times> nat \<times> nat \<Rightarrow> string \<Rightarrow> size_t \<Rightarrow> string \<times> nat \<times> nat" where
  "iconvert_append env acc buf bufavail =
     (case acc of (output, output_size, out_pos) \<Rightarrow>
        let count = chunk_count env bufavail;
            output_size = output_size + count;
            output = xreallocarray (junk env) output output_size;
            output = memcpy_at output out_pos buf count;
            out_pos = out_pos + count;
            output = output[out_pos := NUL]
        in (output, output_size, out_pos))"

definition iconvert_body :: "'cd iconv_env \<Rightarrow> 'cd loop_state \<Rightarrow> fault + 'cd loop_state" where
  "iconvert_body env s =
     (case iconvert_convert env (ls_cd s) (ls_ip s) of
        Inl f \<Rightarrow> Inl f
      | Inr (cd, ip, buf, bufavail) \<Rightarrow>
          (case iconvert_append env (ls_output s, ls_output_size s, ls_out_pos s)
                  buf bufavail of
             (output, output_size, out_pos) \<Rightarrow>
               Inr \<lparr>ls_cd = cd, ls_ip = ip, ls_output = output, ls_output_size = output_size,
                    ls_out_pos = out_pos\<rparr>))"

text \<open>The bytes that \<open>memcpy\<close> appends to the accumulator in the iteration from \<open>s\<close>.\<close>

definition iconvert_chunk :: "'cd iconv_env \<Rightarrow> 'cd loop_state \<Rightarrow> string" where
  "iconvert_chunk env s =
     (case iconvert_convert env (ls_cd s) (ls_ip s) of
        Inl f \<Rightarrow> []
      | Inr (cd, ip, buf, bufavail) \<Rightarrow> take (chunk_count env bufavail) buf)"

text \<open>\<open>while (input_len > 0)\<close>. \<open>None\<close>: the loop runs forever.\<close>

partial_function (option) iconvert_loop ::
  "'cd iconv_env \<Rightarrow> 'cd loop_state \<Rightarrow> (fault + 'cd loop_state) option" where
  "iconvert_loop env s =
     (if length (ls_ip s) > 0 then
        (case iconvert_body env s of
           Inl f \<Rightarrow> Some (Inl f)
         | Inr s' \<Rightarrow> iconvert_loop env s')
      else Some (Inr s))"

declare iconvert_loop.simps [code]

text \<open>
  The observation points of one conversion that starts with the converter \<open>cd0\<close> on
  the input \<open>inp\<close>: the state after initialisation, and the state after each
  iteration of the loop, with the chunks appended so far.
\<close>

inductive iconvert_obs ::
  "'cd iconv_env \<Rightarrow> 'cd \<Rightarrow> string \<Rightarrow> string list \<Rightarrow> 'cd loop_state \<Rightarrow> bool"
  for env :: "'cd iconv_env" and cd0 :: 'cd and inp :: string where
  obs_init: "iconvert_obs env cd0 inp [] (iconvert_init cd0 inp)"
| obs_append:
    "iconvert_obs env cd0 inp chunks s \<Longrightarrow> 0 < length (ls_ip s) \<Longrightarrow>
     iconvert_body env s = Inr s' \<Longrightarrow>
     iconvert_obs env cd0 inp (chunks @ [iconvert_chunk env s]) s'"

code_pred iconvert_obs .

definition c_str :: "string \<Rightarrow> string" where
  "c_str bytes = takeWhile (\<lambda>c. c \<noteq> NUL) bytes"

text \<open>
  \<open>_iconvert\<close> (with \<open>HAVE_ICONV\<close>): the events in order and what is returned. \<open>None\<close>
  for \<open>in_str\<close> is NULL. The outcome is \<open>None\<close> when the loop does not end, and a
  fault when the loop leaves defined behaviour.
\<close>

definition iconvert ::
  "'cd iconv_env \<Rightarrow> string option \<Rightarrow> string \<Rightarrow> string \<Rightarrow> int
     \<Rightarrow> event list \<times> (fault + owned) option" where
  "iconvert env in_str from to mode =
     (case in_str of
        None \<Rightarrow> ([], Some (Inr (Xstrdup [])))
      | Some inp \<Rightarrow>
          let tocode = qualified_target to mode in
          case open_converter env tocode from of
            (opened, Inl e) \<Rightarrow>
              (opened @ [Xfree_tocode, Log_syserr e ''iconv_open''], Some (Inr (Xstrdup inp)))
          | (opened, Inr cd) \<Rightarrow>
              (case iconvert_loop env (iconvert_init cd inp) of
                 None \<Rightarrow> (opened, None)
               | Some (Inl f) \<Rightarrow> (opened, Some (Inl f))
               | Some (Inr s) \<Rightarrow>
                   (case iconv_close env (ls_cd s) of
                      Some e \<Rightarrow>
                        (opened @ [Iconv_close, Log_syserr e ''iconv_close'', Xfree_output,
                                   Xfree_tocode],
                         Some (Inr (Xstrdup inp)))
                    | None \<Rightarrow>
                        (opened @ [Iconv_close, Xfree_tocode],
                         Some (Inr (Output (c_str (ls_output s))))))))"

text \<open>
  A small platform to run the model on. Its converter knows the encoding \<open>ASCII\<close>
  only (also as the default encoding), copies bytes below 128 and stops with
  \<open>EILSEQ\<close> at the first other byte; closing it fails when \<open>close_fails\<close>. Its
  \<open>BUFSIZ\<close> is 1024.
\<close>

definition ascii_iconv :: "unit \<Rightarrow> string \<Rightarrow> nat \<Rightarrow> unit iconv_result" where
  "ascii_iconv cd inp avail =
     (let good = takeWhile (\<lambda>c. (of_char c :: nat) < 128) inp in
      if avail < length good then
        \<lparr>ir_cd = (), ir_consumed = avail, ir_produced = take avail good, ir_errno = Some E2BIG\<rparr>
      else if length good < length inp then
        \<lparr>ir_cd = (), ir_consumed = length good, ir_produced = good, ir_errno = Some EILSEQ\<rparr>
      else
        \<lparr>ir_cd = (), ir_consumed = length inp, ir_produced = good, ir_errno = None\<rparr>)"

definition ascii_env :: "bool \<Rightarrow> unit iconv_env" where
  "ascii_env close_fails =
     \<lparr>iconv_open = (\<lambda>tocode fromcode.
         if (tocode = ''ASCII'' \<or> tocode = []) \<and> (fromcode = ''ASCII'' \<or> fromcode = [])
         then Inr () else Inl EINVAL),
      iconv = ascii_iconv,
      iconv_close = (\<lambda>cd. if close_fails then Some (Errno 9) else None),
      junk = (\<lambda>i. CHR ''#''),
      BUFSIZ = 1024\<rparr>"

text \<open>
  A second platform, whose converter to \<open>ASCII//IGNORE\<close> behaves as the one of glibc
  does with that suffix: a byte it cannot convert is skipped and the conversion goes
  on, and the call that skipped one reports \<open>EILSEQ\<close> at its end, with all of its
  input consumed. \<open>skip_scan\<close> gives the bytes consumed, the bytes written, whether a
  byte was skipped and whether the room ran out.
\<close>

fun skip_scan :: "string \<Rightarrow> nat \<Rightarrow> nat \<times> string \<times> bool \<times> bool" where
  "skip_scan [] avail = (0, [], False, False)"
| "skip_scan (c # cs) avail =
     (if 128 \<le> (of_char c :: nat) then
        (case skip_scan cs avail of (n, out, skipped, full) \<Rightarrow> (Suc n, out, True, full))
      else if avail = 0 then (0, [], False, True)
      else
        (case skip_scan cs (avail - 1) of
           (n, out, skipped, full) \<Rightarrow> (Suc n, c # out, skipped, full)))"

definition skip_iconv :: "unit \<Rightarrow> string \<Rightarrow> nat \<Rightarrow> unit iconv_result" where
  "skip_iconv cd inp avail =
     (case skip_scan inp avail of
        (n, out, skipped, full) \<Rightarrow>
          \<lparr>ir_cd = (), ir_consumed = n, ir_produced = out,
           ir_errno = (if full then Some E2BIG else if skipped then Some EILSEQ else None)\<rparr>)"

definition skip_env :: "unit iconv_env" where
  "skip_env =
     \<lparr>iconv_open = (\<lambda>tocode fromcode.
         if tocode = ''ASCII//IGNORE'' \<and> fromcode = ''UTF-8'' then Inr () else Inl EINVAL),
      iconv = skip_iconv,
      iconv_close = (\<lambda>cd. None),
      junk = (\<lambda>i. CHR ''#''),
      BUFSIZ = 1024\<rparr>"

text \<open>The calls of \<open>iconv_open\<close> among the events.\<close>

fun is_open_event :: "event \<Rightarrow> bool" where
  "is_open_event (Iconv_open tocode fromcode) = True"
| "is_open_event _ = False"

text \<open>
  The name the specification gives the target: the suffix \<open>//TRANSLIT\<close> in
  Transliterate mode, \<open>//IGNORE\<close> in Ignore mode, none otherwise.
\<close>

definition qualified_target_spec :: "string \<Rightarrow> int \<Rightarrow> string" where
  "qualified_target_spec to mode =
     to @ (if mode = ICONV_TRANSLIT then ''//TRANSLIT''
           else if mode = ICONV_IGNORE then ''//IGNORE'' else [])"

text \<open>
  The three pairs (target, source) the specification lists, in its order; the empty
  name stands for the default encoding of the library.
\<close>

definition open_candidates :: "string \<Rightarrow> string \<Rightarrow> int \<Rightarrow> (string \<times> string) list" where
  "open_candidates from to mode =
     [(qualified_target_spec to mode, from), ([], from), (qualified_target_spec to mode, [])]"

definition open_fails :: "'cd iconv_env \<Rightarrow> string \<times> string \<Rightarrow> bool" where
  "open_fails env c \<longleftrightarrow> isl (iconv_open env (fst c) (snd c))"

section \<open>Properties of the string helpers\<close>

subsection \<open>\<open>util_shellquote\<close>\<close>

lemma shellquote_loop_prefix:
  "\<exists>k\<le>length inp.
      shellquote_loop inp b out = out @ concat (map shell_escape (take k inp))
    \<and> (1 \<le> b \<longrightarrow> length (concat (map shell_escape (take k inp))) \<le> b - 1)
    \<and> (k < length inp \<longrightarrow> b - 2 \<le> length (concat (map shell_escape (take k inp))))
    \<and> min (length inp) ((b - 1) div 2) \<le> k"
proof (induction inp arbitrary: b out)
  case Nil
  then show ?case by simp
next
  case (Cons c cs)
  show ?case
  proof (cases "b > 2")
    case False
    then show ?thesis by (intro exI[of _ 0]) auto
  next
    case True
    let ?e = "shell_escape c"
    have le: "length ?e \<le> 2" "1 \<le> length ?e" by (simp_all add: shell_escape_def)
    from Cons.IH[of "b - length ?e" "out @ ?e"] obtain k where k: "k \<le> length cs"
      "shellquote_loop cs (b - length ?e) (out @ ?e) = (out @ ?e) @ concat (map shell_escape (take k cs))"
      "1 \<le> b - length ?e \<longrightarrow> length (concat (map shell_escape (take k cs))) \<le> b - length ?e - 1"
      "k < length cs \<longrightarrow> b - length ?e - 2 \<le> length (concat (map shell_escape (take k cs)))"
      "min (length cs) ((b - length ?e - 1) div 2) \<le> k"
      by blast
    have step: "shellquote_loop (c # cs) b out = shellquote_loop cs (b - length ?e) (out @ ?e)"
      using True by (simp add: shell_escape_def)
    show ?thesis
    proof (intro exI[of _ "Suc k"] conjI)
      show "Suc k \<le> length (c # cs)" using k(1) by simp
      show "shellquote_loop (c # cs) b out = out @ concat (map shell_escape (take (Suc k) (c # cs)))"
        using step k(2) by simp
      show "1 \<le> b \<longrightarrow> length (concat (map shell_escape (take (Suc k) (c # cs)))) \<le> b - 1"
        using k(3) True le by auto
      show "Suc k < length (c # cs) \<longrightarrow> b - 2 \<le> length (concat (map shell_escape (take (Suc k) (c # cs))))"
        using k(4) True le by auto
      show "min (length (c # cs)) ((b - 1) div 2) \<le> Suc k"
        using k(5) True le by auto
    qed
  qed
qed


lemma shellquote_loop_plain:
  "\<forall>c\<in>set inp. c \<noteq> SQUOTE \<and> c \<noteq> BSLASH \<Longrightarrow> length inp + 2 \<le> b \<Longrightarrow>
   shellquote_loop inp b out = out @ inp"
  by (induction inp arbitrary: b out) auto

lemma concat_shell_escape_length: "length inp \<le> length (concat (map shell_escape inp))"
  by (induction inp) (auto simp: shell_escape_def)

text \<open>
  Claim C7, as the code has it. \<open>util_shellquote\<close> returns the single-quoted, escaped
  form (\<open>shell_quote_spec\<close>) of a prefix of its input. An input of at most 8191 bytes
  is quoted whole. A longer input is cut only where the output budget runs out: at
  least its first 8191 bytes are kept, and when bytes are dropped the result is at
  least \<open>2 * 8191 + 1\<close> bytes long. The buffer has \<open>min (length inp) 8191 * 2 + 3\<close>
  bytes and the result with its terminator fits in it. The input \<open>it's\<close> gives
  \<open>'it\'s'\<close>.
\<close>

theorem util_shellquote_capped:
  "(length inp \<le> SHELLQUOTE_INLEN_MAX \<longrightarrow> util_shellquote inp = shell_quote_spec inp)
   \<and> (\<exists>k. min (length inp) SHELLQUOTE_INLEN_MAX \<le> k \<and> k \<le> length inp
          \<and> util_shellquote inp = shell_quote_spec (take k inp)
          \<and> (k < length inp \<longrightarrow>
               2 * SHELLQUOTE_INLEN_MAX + 1 \<le> length (util_shellquote inp)))
   \<and> shellquote_bufsize inp = min (length inp) SHELLQUOTE_INLEN_MAX * 2 + 3
   \<and> length (util_shellquote inp) < shellquote_bufsize inp
   \<and> util_shellquote ''it's'' = [SQUOTE] @ ''it'' @ [BSLASH, SQUOTE] @ ''s'' @ [SQUOTE]"
proof -
  define m where "m = min (length inp) SHELLQUOTE_INLEN_MAX"
  have uq: "util_shellquote inp = shellquote_loop inp (2 * m + 1) [SQUOTE] @ [SQUOTE]"
    by (simp add: util_shellquote_def m_def min_def Let_def mult.commute)
  from shellquote_loop_prefix[of inp "2 * m + 1" "[SQUOTE]"]
  obtain k where k: "k \<le> length inp"
    "shellquote_loop inp (2 * m + 1) [SQUOTE] = [SQUOTE] @ concat (map shell_escape (take k inp))"
    "length (concat (map shell_escape (take k inp))) \<le> 2 * m"
    "k < length inp \<longrightarrow> 2 * m - 1 \<le> length (concat (map shell_escape (take k inp)))"
    "min (length inp) m \<le> k"
    by auto
  have eqk: "util_shellquote inp = shell_quote_spec (take k inp)"
    using uq k(2) by (simp add: shell_quote_spec_def)
  have len: "length (util_shellquote inp) = length (concat (map shell_escape (take k inp))) + 2"
    using eqk by (simp add: shell_quote_spec_def)
  have mk: "m \<le> k" using k(5) by (simp add: m_def)
  have trunc: "k < length inp \<longrightarrow> 2 * SHELLQUOTE_INLEN_MAX + 1 \<le> length (util_shellquote inp)"
  proof
    assume lt: "k < length inp"
    have "m = SHELLQUOTE_INLEN_MAX"
    proof (rule ccontr)
      assume "m \<noteq> SHELLQUOTE_INLEN_MAX"
      then have "m = length inp" by (simp add: m_def min_def split: if_splits)
      with mk lt show False by simp
    qed
    with k(4) lt len show "2 * SHELLQUOTE_INLEN_MAX + 1 \<le> length (util_shellquote inp)"
      by (simp add: SHELLQUOTE_INLEN_MAX_def)
  qed
  have full: "length inp \<le> SHELLQUOTE_INLEN_MAX \<longrightarrow> util_shellquote inp = shell_quote_spec inp"
  proof
    assume "length inp \<le> SHELLQUOTE_INLEN_MAX"
    then have "m = length inp" by (simp add: m_def)
    with mk k(1) have "k = length inp" by simp
    with eqk show "util_shellquote inp = shell_quote_spec inp" by simp
  qed
  have bs: "shellquote_bufsize inp = min (length inp) SHELLQUOTE_INLEN_MAX * 2 + 3"
    by (simp add: shellquote_bufsize_def Let_def min_def)
  have fits: "length (util_shellquote inp) < shellquote_bufsize inp"
    using len k(3) bs by (simp add: m_def)
  have ex: "util_shellquote ''it's'' = [SQUOTE] @ ''it'' @ [BSLASH, SQUOTE] @ ''s'' @ [SQUOTE]"
    by (simp add: util_shellquote_def SHELLQUOTE_INLEN_MAX_def Let_def)
  from full mk k(1) eqk trunc bs fits ex show ?thesis
    unfolding m_def by blast
qed

text \<open>
  The theorem at two inputs: \<open>it's\<close> (short, quoted whole) and 20000 letters \<open>a\<close>
  (cut, so the length bound applies).
\<close>

theorem util_shellquote_capped_witness:
  "length ''it's'' \<le> SHELLQUOTE_INLEN_MAX
   \<and> util_shellquote ''it's'' = shell_quote_spec ''it's''
   \<and> 2 * SHELLQUOTE_INLEN_MAX + 1 \<le> length (util_shellquote (replicate 20000 (CHR ''a'')))"
proof -
  let ?big = "replicate 20000 (CHR ''a'')"
  have small: "length ''it's'' \<le> SHELLQUOTE_INLEN_MAX"
    by (simp add: SHELLQUOTE_INLEN_MAX_def)
  have a: "util_shellquote ''it's'' = shell_quote_spec ''it's''"
    using util_shellquote_capped[of "''it's''"] small by blast
  from util_shellquote_capped[of ?big] obtain k where k:
    "util_shellquote ?big = shell_quote_spec (take k ?big)"
    "k < length ?big \<longrightarrow> 2 * SHELLQUOTE_INLEN_MAX + 1 \<le> length (util_shellquote ?big)"
    and fits: "length (util_shellquote ?big) < shellquote_bufsize ?big"
    by blast
  have "length (take k ?big) \<le> length (concat (map shell_escape (take k ?big)))"
    by (rule concat_shell_escape_length)
  then have "length (take k ?big) + 2 \<le> length (util_shellquote ?big)"
    using k(1) by (simp add: shell_quote_spec_def)
  with fits have "k < length ?big"
    by (simp add: shellquote_bufsize_def SHELLQUOTE_INLEN_MAX_def Let_def)
  with k(2) have "2 * SHELLQUOTE_INLEN_MAX + 1 \<le> length (util_shellquote ?big)" by blast
  with small a show ?thesis by blast
qed

text \<open>
  Claim C7 as stated says that input beyond 8191 bytes is truncated. An input of 8192
  letters \<open>a\<close> is quoted whole: the result is not the quoting of its first 8191 bytes.
\<close>

theorem util_shellquote_no_cut_at_8191:
  "util_shellquote (replicate 8192 (CHR ''a'')) = shell_quote_spec (replicate 8192 (CHR ''a''))
   \<and> util_shellquote (replicate 8192 (CHR ''a'')) \<noteq>
       shell_quote_spec (take 8191 (replicate 8192 (CHR ''a'')))"
proof -
  let ?inp = "replicate 8192 (CHR ''a'')"
  have "shellquote_loop ?inp 16383 [SQUOTE] = [SQUOTE] @ ?inp"
    by (rule shellquote_loop_plain) simp_all
  then have u: "util_shellquote ?inp = [SQUOTE] @ ?inp @ [SQUOTE]"
    by (simp add: util_shellquote_def SHELLQUOTE_INLEN_MAX_def Let_def)
  have e: "concat (map shell_escape (replicate n (CHR ''a''))) = replicate n (CHR ''a'')" for n
    by (induction n) (simp_all add: shell_escape_def)
  have e1: "concat (map shell_escape ?inp) = ?inp" by (rule e)
  have e2: "concat (map shell_escape (take 8191 ?inp)) = replicate 8191 (CHR ''a'')"
    using e[of 8191] by simp
  have s1: "shell_quote_spec ?inp = [SQUOTE] @ ?inp @ [SQUOTE]"
    unfolding shell_quote_spec_def e1 by simp
  have s2: "length (shell_quote_spec (take 8191 ?inp)) = 8193"
    unfolding shell_quote_spec_def e2 by simp
  have "length (util_shellquote ?inp) = 8194" using u by simp
  with s2 have "util_shellquote ?inp \<noteq> shell_quote_spec (take 8191 ?inp)" by auto
  with u s1 show ?thesis by simp
qed

subsection \<open>\<open>util_replacestring\<close>\<close>

lemma strstr_Some:
  "strstr s n = Some i \<Longrightarrow>
     i \<le> length s \<and> prefix n (drop i s) \<and> (\<forall>j<i. \<not> prefix n (drop j s))"
proof (induction s arbitrary: i)
  case Nil
  then show ?case by (simp split: if_splits)
next
  case (Cons c cs)
  show ?case
  proof (cases "prefix n (c # cs)")
    case True
    with Cons.prems show ?thesis by simp
  next
    case False
    with Cons.prems obtain i' where i': "strstr cs n = Some i'" "i = Suc i'" by auto
    from Cons.IH[OF i'(1)] have ih: "i' \<le> length cs" "prefix n (drop i' cs)"
      "\<forall>j<i'. \<not> prefix n (drop j cs)" by simp_all
    have "\<not> prefix n (drop j (c # cs))" if "j < i" for j
      using that False ih(3) i'(2) by (cases j) auto
    with ih i'(2) show ?thesis by simp
  qed
qed

lemma strstr_None:
  "strstr s n = None \<Longrightarrow> j \<le> length s \<Longrightarrow> \<not> prefix n (drop j s)"
proof (induction s arbitrary: j)
  case Nil
  then show ?case by (simp split: if_splits)
next
  case (Cons c cs)
  then show ?case by (cases j) (auto split: if_splits)
qed

lemma strstr_first:
  assumes "\<forall>j<length pre. \<not> prefix from (drop j (pre @ from @ suf))"
  shows "strstr (pre @ from @ suf) from = Some (length pre)"
proof (cases "strstr (pre @ from @ suf) from")
  case None
  from strstr_None[OF None, of "length pre"] show ?thesis by simp
next
  case (Some i)
  from strstr_Some[OF Some] have i: "prefix from (drop i (pre @ from @ suf))"
    "\<forall>j<i. \<not> prefix from (drop j (pre @ from @ suf))" by simp_all
  have "\<not> i < length pre" using assms i(1) by blast
  moreover have "\<not> length pre < i" using i(2) by auto
  ultimately show ?thesis using Some by simp
qed

lemma util_replacestring_Some:
  assumes "strstr source from = Some off"
  shows "dest (util_replacestring source from to) =
           take off source @ util_shellquote to @ drop (off + length from) source"
proof -
  from strstr_Some[OF assms] have "off \<le> length source" by simp
  then show ?thesis using assms
    by (simp add: util_replacestring_def Let_def strncat_def strlcat_def)
qed

lemma util_replacestring_None:
  "strstr source from = None \<Longrightarrow> dest (util_replacestring source from to) = source"
  by (simp add: util_replacestring_def Let_def strlcat_def)

text \<open>
  Claim C8. When \<open>from\<close> occurs in \<open>source\<close>, with \<open>pre\<close> the text before its first
  occurrence and \<open>suf\<close> the text after it, the result is \<open>pre\<close>, the shell-quoted
  replacement, \<open>suf\<close>; later occurrences inside \<open>suf\<close> stay. When \<open>from\<close> does not
  occur, the result is \<open>source\<close>. Either way the replacement is quoted: the quoted
  string is built and the buffer is sized with its length. The example of the
  specification holds.
\<close>

theorem util_replacestring_first_only:
  "(\<forall>pre suf. source = pre @ from @ suf
        \<and> (\<forall>j<length pre. \<not> prefix from (drop j source))
      \<longrightarrow> dest (util_replacestring source from to) = pre @ util_shellquote to @ suf)
   \<and> ((\<nexists>pre suf. source = pre @ from @ suf)
      \<longrightarrow> dest (util_replacestring source from to) = source)
   \<and> to_quoted (util_replacestring source from to) = util_shellquote to
   \<and> dest_size (util_replacestring source from to) =
        length source + length (util_shellquote to) + 1
   \<and> dest (util_replacestring ''foo {X} bar'' ''{X}'' ''it's'') =
        ''foo '' @ [SQUOTE] @ ''it'' @ [BSLASH, SQUOTE] @ ''s'' @ [SQUOTE] @ '' bar''"
proof (intro conjI allI impI)
  fix pre suf
  assume a: "source = pre @ from @ suf \<and> (\<forall>j<length pre. \<not> prefix from (drop j source))"
  then have src: "source = pre @ from @ suf"
    and "\<forall>j<length pre. \<not> prefix from (drop j (pre @ from @ suf))" by blast+
  then have "strstr source from = Some (length pre)"
    using strstr_first[of pre "from" suf] by blast
  from util_replacestring_Some[OF this, of to] a
  show "dest (util_replacestring source from to) = pre @ util_shellquote to @ suf"
    by simp
next
  assume n: "\<nexists>pre suf. source = pre @ from @ suf"
  have "strstr source from = None"
  proof (cases "strstr source from")
    case (Some i)
    from strstr_Some[OF Some] obtain suf where "drop i source = from @ suf"
      by (auto simp: prefix_def)
    then have "source = take i source @ from @ suf"
      by (metis append_take_drop_id)
    with n show ?thesis by blast
  qed simp
  then show "dest (util_replacestring source from to) = source"
    by (rule util_replacestring_None)
next
  show "to_quoted (util_replacestring source from to) = util_shellquote to"
    by (simp add: util_replacestring_def Let_def split: option.splits)
  show "dest_size (util_replacestring source from to) =
        length source + length (util_shellquote to) + 1"
    by (simp add: util_replacestring_def Let_def split: option.splits)
  show "dest (util_replacestring ''foo {X} bar'' ''{X}'' ''it's'') =
        ''foo '' @ [SQUOTE] @ ''it'' @ [BSLASH, SQUOTE] @ ''s'' @ [SQUOTE] @ '' bar''"
    by code_simp
qed

text \<open>
  The theorem at a source with two occurrences (only the first is replaced) and at a
  source without one.
\<close>

theorem util_replacestring_first_only_witness:
  "dest (util_replacestring ''a{X}b{X}c'' ''{X}'' ''v'') = ''a'' @ util_shellquote ''v'' @ ''b{X}c''
   \<and> dest (util_replacestring ''abc'' ''{X}'' ''v'') = ''abc''"
proof -
  have f: "\<forall>j<length ''a''. \<not> prefix ''{X}'' (drop j ''a{X}b{X}c'')" by simp
  have s: "''a{X}b{X}c'' = ''a'' @ ''{X}'' @ ''b{X}c''" by simp
  have a: "dest (util_replacestring ''a{X}b{X}c'' ''{X}'' ''v'') =
             ''a'' @ util_shellquote ''v'' @ ''b{X}c''"
    using util_replacestring_first_only[of "''a{X}b{X}c''" "''{X}''" "''v''"] f s by blast
  have n: "\<nexists>pre suf. ''abc'' = pre @ ''{X}'' @ suf"
  proof
    assume "\<exists>pre suf. ''abc'' = pre @ ''{X}'' @ suf"
    then obtain pre suf where "''abc'' = pre @ ''{X}'' @ suf" by blast
    then have "set ''{X}'' \<subseteq> set ''abc''" by (metis set_append sup_ge1 sup_ge2 subset_trans)
    then show False by simp
  qed
  have b: "dest (util_replacestring ''abc'' ''{X}'' ''v'') = ''abc''"
    using util_replacestring_first_only[of "''abc''" "''{X}''" "''v''"] n by blast
  from a b show ?thesis by blast
qed


section \<open>Properties of the URL parser\<close>

lemma strchr_takeWhile:
  "strchr s c = (if c \<in> set s then Some (length (takeWhile (\<lambda>x. x \<noteq> c) s)) else None)"
  by (induction s) auto

lemma strncmp_eq_prefix: "strncmp_eq url ''http://'' (length ''http://'') \<longleftrightarrow> prefix ''http://'' url"
proof -
  have "take 7 url = ''http://'' \<longleftrightarrow> prefix ''http://'' url"
  proof
    assume "take 7 url = ''http://''"
    then have "url = ''http://'' @ drop 7 url" by (metis append_take_drop_id)
    then show "prefix ''http://'' url" by (metis prefixI)
  next
    assume "prefix ''http://'' url"
    then obtain r where "url = ''http://'' @ r" by (auto simp: prefix_def)
    then show "take 7 url = ''http://''" by simp
  qed
  moreover have "length ''http://'' = (7::nat)" by simp
  moreover have "take 7 ''http://'' = ''http://''" by simp
  ultimately show ?thesis unfolding strncmp_eq_def by (simp only:)
qed

lemma strlcpy_full: "strlcpy xs (Suc (length xs)) = xs"
  by (simp add: strlcpy_def)

lemma strtonum_port:
  "strtonum txt 1 USHRT_MAX =
     (case port_of_text txt of
        Some p \<Rightarrow> (int p, None)
      | None \<Rightarrow> (0, snd (strtonum txt 1 USHRT_MAX)))"
  "port_of_text txt = None \<Longrightarrow> snd (strtonum txt 1 USHRT_MAX) \<noteq> None"
  "port_of_text txt = Some p \<Longrightarrow> 1 \<le> p \<and> p \<le> 65535"
  by (auto simp: strtonum_def port_of_text_def USHRT_MAX_def split: option.splits if_splits)


lemma util_urlparse_char:
  "case parse_stream_url url of
      Inl InvalidScheme \<Rightarrow>
        util_urlparse nulls url s = (0, s\<lparr>errlog := errlog s @ [''invalid <url>: not an HTTP address'']\<rparr>)
    | Inl MissingPort \<Rightarrow>
        util_urlparse nulls url s = (0, s\<lparr>errlog := errlog s @ [''invalid <url>: missing port'']\<rparr>)
    | Inl MissingHost \<Rightarrow>
        util_urlparse nulls url s = (0, s\<lparr>errlog := errlog s @ [''invalid <url>: missing host'']\<rparr>)
    | Inl MalformedMount \<Rightarrow>
        util_urlparse nulls url s =
          (0, s\<lparr>hostname_cell := (if nulls then None else Some (length (heap s))), heap := heap s @ [None],
                 errlog := errlog s @
                   [''invalid <url>: mountpoint missing, or port number too long'']\<rparr>)
    | Inl InvalidPort \<Rightarrow>
        (\<exists>txt e. util_urlparse nulls url s =
          (0, s\<lparr>hostname_cell := (if nulls then None else Some (length (heap s))), port_cell := 0,
                 heap := heap s @ [None],
                 errlog := errlog s @ [''invalid <url>: port: '' @ txt @ '' is '' @ e]\<rparr>))
    | Inr (host, p, mount) \<Rightarrow>
        util_urlparse nulls url s =
          (1, s\<lparr>hostname_cell := Some (length (heap s)), port_cell := word_of_nat p,
                 mountname_cell := Some (Suc (length (heap s))),
                 heap := heap s @ [Some host, Some mount]\<rparr>)"
proof (cases "prefix ''http://'' url")
  case False
  then show ?thesis
    by (simp add: parse_stream_url_def util_urlparse_def strncmp_eq_prefix log_error_def
        del: length_Cons list.size)
next
  case pre: True
  define rest where "rest = drop 7 url"
  define host where "host = takeWhile (\<lambda>c. c \<noteq> CHR '':'') rest"
  define after where "after = drop 1 (dropWhile (\<lambda>c. c \<noteq> CHR '':'') rest)"
  define ptxt where "ptxt = takeWhile (\<lambda>c. c \<noteq> CHR ''/'') after"
  define mount where "mount = dropWhile (\<lambda>c. c \<noteq> CHR ''/'') after"
  have url: "url = ''http://'' @ rest"
    using pre by (auto simp: prefix_def rest_def)
  have l7: "length ''http://'' = (7::nat)" by simp
  have p1: "drop (length ''http://'') url = rest" by (simp only: l7 rest_def)
  have P: "parse_stream_url url =
      (if CHR '':'' \<notin> set rest then Inl MissingPort
       else if host = [] then Inl MissingHost
       else if CHR ''/'' \<notin> set after \<or> length ptxt > 5 then Inl MalformedMount
       else case port_of_text ptxt of None \<Rightarrow> Inl InvalidPort
            | Some p \<Rightarrow> Inr (host, p, mount))"
    using pre unfolding parse_stream_url_def rest_def host_def after_def ptxt_def mount_def Let_def
    by simp
  have U0: "util_urlparse nulls url s =
      (case strchr rest (CHR '':'') of
          None \<Rightarrow> (0, log_error ''invalid <url>: missing port'' s)
        | Some off2 \<Rightarrow>
            let hostsiz = off2 + 1 in
            if hostsiz \<le> 1 then (0, log_error ''invalid <url>: missing host'' s)
            else
              let (a, h) = xmalloc (heap s);
                  s = s\<lparr>hostname_cell := Some a, heap := h\<rparr>;
                  s = s\<lparr>heap := store (heap s) (hostname_cell s) (strlcpy rest hostsiz)\<rparr>;
                  p2 = drop (off2 + 1) rest
              in case strchr p2 (CHR ''/'') of
                   None \<Rightarrow>
                     urlparse_fail nulls ''invalid <url>: mountpoint missing, or port number too long'' s
                 | Some off3 \<Rightarrow>
                     if off3 \<ge> 6 then
                       urlparse_fail nulls ''invalid <url>: mountpoint missing, or port number too long'' s
                     else
                       let p3 = drop off3 p2;
                           tmpPort = strlcpy p2 (off3 + 1);
                           (v, errstr) = strtonum tmpPort 1 USHRT_MAX;
                           s = s\<lparr>port_cell := word_of_int v\<rparr>
                       in case errstr of
                            Some e \<Rightarrow>
                              urlparse_fail nulls (''invalid <url>: port: '' @ tmpPort @ '' is '' @ e) s
                          | None \<Rightarrow>
                              let mountsiz = length p3 + 1;
                                  (b, h) = xmalloc (heap s);
                                  s = s\<lparr>mountname_cell := Some b, heap := h\<rparr>;
                                  s = s\<lparr>heap := store (heap s) (mountname_cell s)
                                                   (strlcpy p3 mountsiz)\<rparr>
                              in (1, s))"
    unfolding util_urlparse_def p1 using pre by (simp only: strncmp_eq_prefix not_True_eq_False if_False Let_def)
  show ?thesis
  proof (cases "CHR '':'' \<in> set rest")
    case False
    then show ?thesis unfolding P U0 by (simp add: strchr_takeWhile log_error_def)
  next
    case colon: True
    have off2: "strchr rest (CHR '':'') = Some (length host)"
      using colon by (simp add: strchr_takeWhile host_def)
    show ?thesis
    proof (cases "host = []")
      case True
      then show ?thesis unfolding P U0 off2 using colon by (simp add: log_error_def)
    next
      case host: False
      have h1: "strlcpy rest (length host + 1) = host"
        by (simp add: strlcpy_def host_def takeWhile_eq_take[symmetric])
      have h2: "drop (length host + 1) rest = after"
        unfolding after_def host_def dropWhile_eq_drop by simp
      have rest: "rest = host @ '':'' @ after"
      proof -
        have "dropWhile (\<lambda>c. c \<noteq> CHR '':'') rest \<noteq> []" using colon by simp
        moreover have "hd (dropWhile (\<lambda>c. c \<noteq> CHR '':'') rest) = CHR '':''"
          using colon hd_dropWhile[of "\<lambda>c. c \<noteq> CHR '':''" rest] by auto
        ultimately have "dropWhile (\<lambda>c. c \<noteq> CHR '':'') rest = CHR '':'' # after"
          by (cases "dropWhile (\<lambda>c. c \<noteq> CHR '':'') rest") (auto simp: after_def)
        then show ?thesis
          using takeWhile_dropWhile_id[of "\<lambda>c. c \<noteq> CHR '':''" rest] by (simp add: host_def)
      qed
      define s1 where "s1 = s\<lparr>hostname_cell := Some (length (heap s)),
                               heap := (heap s @ [Some []])[length (heap s) := Some host]\<rparr>"
      define mm where "mm = ''invalid <url>: mountpoint missing, or port number too long''"
      have h1': "strlcpy rest (Suc (length host)) = host" using h1 by simp
      have h2': "drop (Suc (length host)) rest = after" using h2 by simp
      note ev = Let_def xmalloc_def store_def h1' h2' host mm_def
      have s1log: "errlog s1 = errlog s" by (simp add: s1_def)
      show ?thesis
      proof (cases "CHR ''/'' \<in> set after \<and> length ptxt \<le> 5")
        case False
        then have "parse_stream_url url = Inl MalformedMount"
          unfolding P using colon host by auto
        moreover have "util_urlparse nulls url s = urlparse_fail nulls mm s1"
        proof (cases "CHR ''/'' \<in> set after")
          case True
          with False have "strchr after (CHR ''/'') = Some (length ptxt)" "6 \<le> length ptxt"
            by (simp_all add: strchr_takeWhile ptxt_def)
          then show ?thesis unfolding U0 off2 by (simp add: ev s1_def)
        next
          case False
          then have "strchr after (CHR ''/'') = None" by (simp add: strchr_takeWhile)
          then show ?thesis unfolding U0 off2 by (simp add: ev s1_def)
        qed
        ultimately show ?thesis
          by (simp add: urlparse_fail_def log_error_def xfree_def Let_def s1_def mm_def)
      next
        case slash: True
        have off3: "strchr after (CHR ''/'') = Some (length ptxt)"
          using slash by (simp add: strchr_takeWhile ptxt_def)
        have t1: "strlcpy after (Suc (length ptxt)) = ptxt"
          by (simp add: strlcpy_def ptxt_def takeWhile_eq_take[symmetric])
        have t2: "drop (length ptxt) after = mount"
          unfolding mount_def ptxt_def dropWhile_eq_drop by simp
        have after: "after = ptxt @ mount"
          unfolding ptxt_def mount_def by simp
        have m1: "take 1 mount = ''/''"
        proof -
          have "mount \<noteq> []" using slash by (simp add: mount_def)
          moreover have "hd mount = CHR ''/''"
            using slash hd_dropWhile[of "\<lambda>c. c \<noteq> CHR ''/''" after] by (auto simp: mount_def)
          ultimately show ?thesis by (cases mount) auto
        qed
        show ?thesis
        proof (cases "port_of_text ptxt")
          case None
          then have "parse_stream_url url = Inl InvalidPort"
            unfolding P using colon host slash by auto
          moreover obtain e where e: "strtonum ptxt 1 USHRT_MAX = (0, Some e)"
            using strtonum_port(1)[of ptxt] strtonum_port(2)[OF None] None by auto
          have "util_urlparse nulls url s =
              urlparse_fail nulls (''invalid <url>: port: '' @ ptxt @ '' is '' @ e) (s1\<lparr>port_cell := 0\<rparr>)"
            unfolding U0 off2 using slash by (simp add: ev off3 t1 e s1_def)
          then have "util_urlparse nulls url s =
              (0, s\<lparr>hostname_cell := (if nulls then None else Some (length (heap s))), port_cell := 0,
                 heap := heap s @ [None],
                 errlog := errlog s @ [''invalid <url>: port: '' @ ptxt @ '' is '' @ e]\<rparr>)"
            by (simp add: urlparse_fail_def log_error_def xfree_def Let_def s1_def
                del: append_Cons)
          then have "\<exists>txt e. util_urlparse nulls url s =
              (0, s\<lparr>hostname_cell := (if nulls then None else Some (length (heap s))), port_cell := 0,
                 heap := heap s @ [None],
                 errlog := errlog s @ [''invalid <url>: port: '' @ txt @ '' is '' @ e]\<rparr>)"
            by blast
          ultimately show ?thesis by simp
        next
          case (Some p)
          then have Pp: "parse_stream_url url = Inr (host, p, mount)"
            unfolding P using colon host slash by auto
          have v: "strtonum ptxt 1 USHRT_MAX = (int p, None)"
            using strtonum_port(1)[of ptxt] Some by simp
          have rng: "1 \<le> p" "p \<le> 65535" using strtonum_port(3)[OF Some] by simp_all
          define s2 where "s2 = s1\<lparr>port_cell := word_of_int (int p),
              mountname_cell := Some (Suc (length (heap s))),
              heap := heap s @ [Some host, Some mount]\<rparr>"
          have U2: "util_urlparse nulls url s = (1, s2)"
            unfolding U0 off2 using slash
            by (simp add: ev off3 t1 t2 v strlcpy_full s2_def s1_def)
          show ?thesis unfolding Pp U2 by (simp add: s2_def s1_def)
        qed
      qed
    qed
  qed
qed

lemma parse_stream_url_Inr:
  assumes "parse_stream_url url = Inr (host, p, mount)"
  shows "\<exists>ptxt. url = ''http://'' @ host @ '':'' @ ptxt @ mount
           \<and> CHR '':'' \<notin> set host \<and> host \<noteq> [] \<and> CHR ''/'' \<notin> set ptxt \<and> length ptxt \<le> 5
           \<and> port_of_text ptxt = Some p \<and> take 1 mount = ''/''"
    and "1 \<le> p \<and> p \<le> 65535"
proof -
  define rest where "rest = drop 7 url"
  define after where "after = drop 1 (dropWhile (\<lambda>c. c \<noteq> CHR '':'') rest)"
  define ptxt where "ptxt = takeWhile (\<lambda>c. c \<noteq> CHR ''/'') after"
  from assms have pre: "prefix ''http://'' url"
    by (auto simp: parse_stream_url_def split: if_splits)
  from assms pre have f: "CHR '':'' \<in> set rest" "host = takeWhile (\<lambda>c. c \<noteq> CHR '':'') rest"
    "host \<noteq> []" "CHR ''/'' \<in> set after" "length ptxt \<le> 5" "port_of_text ptxt = Some p"
    "mount = dropWhile (\<lambda>c. c \<noteq> CHR ''/'') after"
    unfolding parse_stream_url_def rest_def after_def ptxt_def Let_def
    by (auto split: if_splits option.splits)
  have url: "url = ''http://'' @ rest"
    using pre by (auto simp: prefix_def rest_def)
  have "dropWhile (\<lambda>c. c \<noteq> CHR '':'') rest \<noteq> []" using f(1) by simp
  moreover have "hd (dropWhile (\<lambda>c. c \<noteq> CHR '':'') rest) = CHR '':''"
    using f(1) hd_dropWhile[of "\<lambda>c. c \<noteq> CHR '':''" rest] by auto
  ultimately have "dropWhile (\<lambda>c. c \<noteq> CHR '':'') rest = CHR '':'' # after"
    by (cases "dropWhile (\<lambda>c. c \<noteq> CHR '':'') rest") (auto simp: after_def)
  then have rest: "rest = host @ '':'' @ after"
    using takeWhile_dropWhile_id[of "\<lambda>c. c \<noteq> CHR '':''" rest] by (simp add: f(2))
  have after: "after = ptxt @ mount" unfolding ptxt_def f(7) by simp
  have "mount \<noteq> []" using f(4) by (simp add: f(7))
  moreover have "hd mount = CHR ''/''"
    using f(4) hd_dropWhile[of "\<lambda>c. c \<noteq> CHR ''/''" after] by (auto simp: f(7))
  ultimately have m1: "take 1 mount = ''/''" by (cases mount) auto
  have nc: "CHR '':'' \<notin> set host" "CHR ''/'' \<notin> set ptxt"
    unfolding f(2) ptxt_def by (auto dest: set_takeWhileD)
  have "url = ''http://'' @ host @ '':'' @ ptxt @ mount" using url rest after by simp
  with nc f(3,5,6) m1
  show "\<exists>ptxt. url = ''http://'' @ host @ '':'' @ ptxt @ mount
           \<and> CHR '':'' \<notin> set host \<and> host \<noteq> [] \<and> CHR ''/'' \<notin> set ptxt \<and> length ptxt \<le> 5
           \<and> port_of_text ptxt = Some p \<and> take 1 mount = ''/''"
    by blast
  show "1 \<le> p \<and> p \<le> 65535" using strtonum_port(3)[OF f(6)] .
qed

text \<open>
  Claim C5. \<open>util_urlparse\<close> fails exactly when \<open>parse_stream_url\<close>, the parser of the
  specification, fails: it returns 0 and logs one line, the diagnostic of that failure
  (the failures are tried in the order InvalidScheme, MissingPort, MissingHost,
  MalformedMount, InvalidPort). Otherwise it returns 1 and logs nothing; the host and
  mount cells point to two distinct blocks that were not live before and now hold the
  host and the mount; the port cell holds the port, which lies in \<open>[1, 65535]\<close>. The
  URL is \<open>http://\<close>, the host (without a colon), a colon, the port text (without a
  slash), and the mount, which starts with a slash and runs to the end.
\<close>

theorem util_urlparse_refines:
  "(case parse_stream_url url of
      Inl e \<Rightarrow>
        fst (util_urlparse nulls url s) = 0
        \<and> (\<exists>msg. errlog (snd (util_urlparse nulls url s)) = errlog s @ [msg] \<and> url_diagnostic e msg)
    | Inr (host, p, mount) \<Rightarrow>
        fst (util_urlparse nulls url s) = 1
        \<and> errlog (snd (util_urlparse nulls url s)) = errlog s
        \<and> (\<exists>a b. hostname_cell (snd (util_urlparse nulls url s)) = Some a
                 \<and> mountname_cell (snd (util_urlparse nulls url s)) = Some b
                 \<and> a \<noteq> b
                 \<and> live (heap s) a = None \<and> live (heap s) b = None
                 \<and> live (heap (snd (util_urlparse nulls url s))) a = Some host
                 \<and> live (heap (snd (util_urlparse nulls url s))) b = Some mount)
        \<and> unat (port_cell (snd (util_urlparse nulls url s))) = p
        \<and> 1 \<le> p \<and> p \<le> 65535
        \<and> (\<exists>ptxt. url = ''http://'' @ host @ '':'' @ ptxt @ mount
                  \<and> CHR '':'' \<notin> set host \<and> CHR ''/'' \<notin> set ptxt
                  \<and> port_of_text ptxt = Some p \<and> take 1 mount = ''/''))"
proof (cases "parse_stream_url url")
  case (Inl e)
  with util_urlparse_char[of nulls url s] show ?thesis
    by (cases e) (auto simp del: append_Cons)
next
  case (Inr r)
  obtain host p mount where r: "r = (host, p, mount)" by (cases r) auto
  with Inr have P: "parse_stream_url url = Inr (host, p, mount)" by simp
  from util_urlparse_char[of nulls url s] P
  have U: "util_urlparse nulls url s =
          (1, s\<lparr>hostname_cell := Some (length (heap s)), port_cell := word_of_nat p,
                 mountname_cell := Some (Suc (length (heap s))),
                 heap := heap s @ [Some host, Some mount]\<rparr>)" by simp
  from parse_stream_url_Inr[OF P] have rng: "1 \<le> p" "p \<le> 65535"
    and split: "\<exists>ptxt. url = ''http://'' @ host @ '':'' @ ptxt @ mount
                  \<and> CHR '':'' \<notin> set host \<and> CHR ''/'' \<notin> set ptxt
                  \<and> port_of_text ptxt = Some p \<and> take 1 mount = ''/''"
    by blast+
  have un: "unat (word_of_nat p :: 16 word) = p"
    using rng by (simp add: unat_of_nat)
  have cells: "\<exists>a b. hostname_cell (snd (util_urlparse nulls url s)) = Some a
                 \<and> mountname_cell (snd (util_urlparse nulls url s)) = Some b
                 \<and> a \<noteq> b
                 \<and> live (heap s) a = None \<and> live (heap s) b = None
                 \<and> live (heap (snd (util_urlparse nulls url s))) a = Some host
                 \<and> live (heap (snd (util_urlparse nulls url s))) b = Some mount"
    unfolding U
    by (intro exI[of _ "length (heap s)"] exI[of _ "Suc (length (heap s))"])
       (simp add: live_def nth_append)
  show ?thesis unfolding P using cells un rng split by (simp add: U)
qed

text \<open>
  The theorem at the URLs of the specification: one that parses and three that fail.
\<close>

theorem util_urlparse_refines_witness:
  "parse_stream_url ''http://host.example:8000/mount'' = Inr (''host.example'', 8000, ''/mount'')
   \<and> fst (util_urlparse True ''http://host.example:8000/mount''
        \<lparr>hostname_cell = None, port_cell = 0, mountname_cell = None, heap = [], errlog = []\<rparr>) = 1
   \<and> unat (port_cell (snd (util_urlparse True ''http://host.example:8000/mount''
        \<lparr>hostname_cell = None, port_cell = 0, mountname_cell = None, heap = [], errlog = []\<rparr>))) = 8000
   \<and> parse_stream_url ''ftp://host:8000/mount'' = Inl InvalidScheme
   \<and> fst (util_urlparse True ''ftp://host:8000/mount''
        \<lparr>hostname_cell = None, port_cell = 0, mountname_cell = None, heap = [], errlog = []\<rparr>) = 0
   \<and> parse_stream_url ''http://host:99999/mount'' = Inl InvalidPort
   \<and> fst (util_urlparse True ''http://host:99999/mount''
        \<lparr>hostname_cell = None, port_cell = 0, mountname_cell = None, heap = [], errlog = []\<rparr>) = 0
   \<and> parse_stream_url ''http://host:8000'' = Inl MalformedMount
   \<and> fst (util_urlparse True ''http://host:8000''
        \<lparr>hostname_cell = None, port_cell = 0, mountname_cell = None, heap = [], errlog = []\<rparr>) = 0"
proof -
  let ?s = "\<lparr>hostname_cell = None, port_cell = 0, mountname_cell = None, heap = [], errlog = []\<rparr>"
  have p1: "parse_stream_url ''http://host.example:8000/mount'' = Inr (''host.example'', 8000, ''/mount'')"
    by code_simp
  have p2: "parse_stream_url ''ftp://host:8000/mount'' = Inl InvalidScheme" by code_simp
  have p3: "parse_stream_url ''http://host:99999/mount'' = Inl InvalidPort" by code_simp
  have p4: "parse_stream_url ''http://host:8000'' = Inl MalformedMount" by code_simp
  show ?thesis
    using util_urlparse_refines[of True "''http://host.example:8000/mount''" ?s]
      util_urlparse_refines[of True "''ftp://host:8000/mount''" ?s]
      util_urlparse_refines[of True "''http://host:99999/mount''" ?s]
      util_urlparse_refines[of True "''http://host:8000''" ?s]
    unfolding p1 p2 p3 p4 by simp
qed




section \<open>Properties of the pid-file\<close>

lemma fclose_fields [simp]:
  "pidfile_path (fclose f s) = pidfile_path s"
  "pidfile_file (fclose f s) = pidfile_file s"
  "pidfile_pid (fclose f s) = pidfile_pid s"
  "pidfile_numlocks (fclose f s) = pidfile_numlocks s"
  "files (fclose f s) = files s"
  "atexit_hooks (fclose f s) = atexit_hooks s"
  "length (handles (fclose f s)) = length (handles s)"
  by (simp_all add: fclose_def split: option.splits)

text \<open>A successful write with a path: what the state is afterwards.\<close>

lemma util_write_pid_file_ok:
  assumes "util_write_pid_file e (Some p) s = (0, s')"
  shows "pidfile_path s' = Some p"
    and "pidfile_file s' = Some (length (handles s))"
    and "is_open s' (length (handles s))"
    and "handles s' ! length (handles s) = Some p"
    and "files s' = (files s)(p \<mapsto> show_long (getpid e) @ [CHR 0x0A])"
    and "pidfile_numlocks s' = (if pidfile_numlocks s = 0 then 1 else pidfile_numlocks s)"
    and "pidfile_pid s' = (if pidfile_numlocks s = 0 then getpid e else pidfile_pid s)"
    and "atexit_hooks s' = (if pidfile_numlocks s = 0 then atexit_hooks s + 1 else atexit_hooks s)"
  using assms
  by (auto simp: util_write_pid_file_def Let_def fopen_w_def pidfile_error_def fprintf_pid_def
      flock_ex_def is_open_def nth_append
      split: if_splits option.splits prod.splits)


lemma cleanup_pidfile_other:
  "cur \<noteq> pidfile_pid s \<Longrightarrow> cleanup_pidfile cur s = s"
  by (simp add: cleanup_pidfile_def split: option.splits)

lemma cleanup_pidfile_own:
  assumes "pidfile_path s = Some p" "pidfile_file s = Some h" "is_open s h"
  shows "cleanup_pidfile (pidfile_pid s) s =
           s\<lparr>files := (files s)(p := None), handles := (handles s)[h := None],
              locked := locked s - {h}\<rparr>"
  using assms by (simp add: cleanup_pidfile_def unlink_def fclose_def is_open_def Let_def)

text \<open>
  Two successful calls in a row, the first with the path \<open>P\<close>, the second with \<open>Q\<close>.
  \<open>P\<close>'s file, holding the process id and a newline, is still there after the second
  call (unchanged when \<open>Q\<close> is another path); the owned path is \<open>Q\<close> and the owned
  handle is open on \<open>Q\<close>. The second call neither registers the hook nor records a
  process id; the first does both exactly when \<open>pidfile_numlocks\<close> was 0. The hook
  acts exactly in the process whose id \<open>pidfile_pid\<close> holds: there it unlinks \<open>Q\<close> and
  nothing else, and closes the owned handle.
\<close>

lemma util_write_pid_file_twice:
  assumes "util_write_pid_file e1 (Some P) s0 = (0, s1)"
    and "util_write_pid_file e2 (Some Q) s1 = (0, s2)"
  shows "files s1 P = Some (show_long (getpid e1) @ [CHR 0x0A])
       \<and> files s2 P \<noteq> None \<and> (P \<noteq> Q \<longrightarrow> files s2 P = files s1 P)
       \<and> pidfile_path s2 = Some Q
       \<and> (\<exists>h. pidfile_file s2 = Some h \<and> is_open s2 h \<and> handles s2 ! h = Some Q
              \<and> cleanup_pidfile (pidfile_pid s2) s2 =
                  s2\<lparr>files := (files s2)(Q := None), handles := (handles s2)[h := None],
                     locked := locked s2 - {h}\<rparr>)
       \<and> (\<forall>cur. cur \<noteq> pidfile_pid s2 \<longrightarrow> cleanup_pidfile cur s2 = s2)
       \<and> atexit_hooks s2 = atexit_hooks s1 \<and> pidfile_pid s2 = pidfile_pid s1
       \<and> (pidfile_numlocks s0 = 0 \<longrightarrow>
             atexit_hooks s1 = atexit_hooks s0 + 1 \<and> pidfile_pid s1 = getpid e1)
       \<and> (pidfile_numlocks s0 \<noteq> 0 \<longrightarrow>
             atexit_hooks s1 = atexit_hooks s0 \<and> pidfile_pid s1 = pidfile_pid s0)
       \<and> (atexit_hooks s2 = 1 \<longrightarrow> (\<forall>cur. run_atexit cur s2 = cleanup_pidfile cur s2))"
proof -
  note a = util_write_pid_file_ok[OF assms(1)]
  note b = util_write_pid_file_ok[OF assms(2)]
  have n1: "pidfile_numlocks s1 \<noteq> 0" using a(6) by (simp split: if_splits)
  have second: "atexit_hooks s2 = atexit_hooks s1" "pidfile_pid s2 = pidfile_pid s1"
    using b(7) b(8) n1 by simp_all
  have first0: "pidfile_numlocks s0 = 0 \<longrightarrow>
             atexit_hooks s1 = atexit_hooks s0 + 1 \<and> pidfile_pid s1 = getpid e1"
    using a(7) a(8) by simp
  have first1: "pidfile_numlocks s0 \<noteq> 0 \<longrightarrow>
             atexit_hooks s1 = atexit_hooks s0 \<and> pidfile_pid s1 = pidfile_pid s0"
    using a(7) a(8) by simp
  have f1: "files s1 P = Some (show_long (getpid e1) @ [CHR 0x0A])" using a(5) by simp
  have f2: "files s2 P \<noteq> None" "P \<noteq> Q \<longrightarrow> files s2 P = files s1 P"
    using a(5) b(5) by simp_all
  have cl: "cleanup_pidfile (pidfile_pid s2) s2 =
                  s2\<lparr>files := (files s2)(Q := None),
                     handles := (handles s2)[length (handles s1) := None],
                     locked := locked s2 - {length (handles s1)}\<rparr>"
    by (rule cleanup_pidfile_own[OF b(1) b(2) b(3)])
  have other: "\<forall>cur. cur \<noteq> pidfile_pid s2 \<longrightarrow> cleanup_pidfile cur s2 = s2"
    using cleanup_pidfile_other[of _ s2] by simp
  have run: "atexit_hooks s2 = 1 \<longrightarrow> (\<forall>cur. run_atexit cur s2 = cleanup_pidfile cur s2)"
    by (simp add: run_atexit_def)
  from f1 f2 b(1) b(2) b(3) b(4) cl other second first0 first1 run show ?thesis by blast
qed

text \<open>
  Claim C9 on the code. The \<open>error:\<close> exit resets \<open>pidfile_pid\<close> to 0 and leaves
  \<open>pidfile_numlocks\<close> at 1, so the successful writes that follow a failed one record
  no process id. In process 1234: \<open>/a\<close> is written, the write of \<open>/b\<close> fails at
  \<open>flock\<close>, then \<open>/p\<close> and \<open>/q\<close> are written, both with success. Afterwards \<open>/q\<close> is the
  owned path and one hook is registered, but the recorded id is 0, and normal exit of
  process 1234 leaves \<open>/q\<close> in place.
\<close>

theorem util_write_pid_file_pid_lost:
  "fst (util_write_pid_file (pid_env_ok 1234) (Some ''/a'') (pid_state0 Map.empty)) = 0
   \<and> fst (util_write_pid_file ((pid_env_ok 1234)\<lparr>flock_ok := False\<rparr>) (Some ''/b'') (snd
        (util_write_pid_file (pid_env_ok 1234) (Some ''/a'') (pid_state0 Map.empty)))) = - 1
   \<and> fst (util_write_pid_file (pid_env_ok 1234) (Some ''/p'') (snd
        (util_write_pid_file ((pid_env_ok 1234)\<lparr>flock_ok := False\<rparr>) (Some ''/b'') (snd
        (util_write_pid_file (pid_env_ok 1234) (Some ''/a'') (pid_state0 Map.empty)))))) = 0
   \<and> fst (util_write_pid_file (pid_env_ok 1234) (Some ''/q'') (snd
        (util_write_pid_file (pid_env_ok 1234) (Some ''/p'') (snd
        (util_write_pid_file ((pid_env_ok 1234)\<lparr>flock_ok := False\<rparr>) (Some ''/b'') (snd
        (util_write_pid_file (pid_env_ok 1234) (Some ''/a'') (pid_state0 Map.empty)))))))) = 0
   \<and> pidfile_path (snd
        (util_write_pid_file (pid_env_ok 1234) (Some ''/q'') (snd
        (util_write_pid_file (pid_env_ok 1234) (Some ''/p'') (snd
        (util_write_pid_file ((pid_env_ok 1234)\<lparr>flock_ok := False\<rparr>) (Some ''/b'') (snd
        (util_write_pid_file (pid_env_ok 1234) (Some ''/a'') (pid_state0 Map.empty))))))))) = Some ''/q''
   \<and> atexit_hooks (snd
        (util_write_pid_file (pid_env_ok 1234) (Some ''/q'') (snd
        (util_write_pid_file (pid_env_ok 1234) (Some ''/p'') (snd
        (util_write_pid_file ((pid_env_ok 1234)\<lparr>flock_ok := False\<rparr>) (Some ''/b'') (snd
        (util_write_pid_file (pid_env_ok 1234) (Some ''/a'') (pid_state0 Map.empty))))))))) = 1
   \<and> pidfile_pid (snd
        (util_write_pid_file (pid_env_ok 1234) (Some ''/q'') (snd
        (util_write_pid_file (pid_env_ok 1234) (Some ''/p'') (snd
        (util_write_pid_file ((pid_env_ok 1234)\<lparr>flock_ok := False\<rparr>) (Some ''/b'') (snd
        (util_write_pid_file (pid_env_ok 1234) (Some ''/a'') (pid_state0 Map.empty))))))))) = 0
   \<and> files (run_atexit 1234 (snd
        (util_write_pid_file (pid_env_ok 1234) (Some ''/q'') (snd
        (util_write_pid_file (pid_env_ok 1234) (Some ''/p'') (snd
        (util_write_pid_file ((pid_env_ok 1234)\<lparr>flock_ok := False\<rparr>) (Some ''/b'') (snd
        (util_write_pid_file (pid_env_ok 1234) (Some ''/a'') (pid_state0 Map.empty)))))))))) ''/q'' = Some (''1234'' @ [CHR 0x0A])"
proof -
  have d: "show_long 1234 = ''1234''" by code_simp
  show ?thesis
    by (simp add: util_write_pid_file_def pid_env_ok_def pid_state0_def fopen_w_def fclose_def
      is_open_def fprintf_pid_def flock_ex_def run_atexit_def cleanup_pidfile_def Let_def
      pidfile_error_def unlink_def d)
qed

section \<open>Properties of \<open>_iconvert\<close>\<close>

subsection \<open>The output accumulator\<close>

lemma chunk_count_of_nat:
  "chunk_count env (chunk_room env - of_nat p) = p mod 2 ^ 64"
  "chunk_count env (chunk_room env - of_nat p - 1) = Suc p mod 2 ^ 64"
proof -
  have "(of_nat (BUFSIZ env) - (of_nat (BUFSIZ env) - 1 - of_nat p) - 1 :: size_t) = of_nat p"
    by simp
  then show "chunk_count env (chunk_room env - of_nat p) = p mod 2 ^ 64"
    by (simp add: chunk_count_def chunk_room_def unat_of_nat)
  have "(of_nat (BUFSIZ env) - (of_nat (BUFSIZ env) - 1 - of_nat p - 1) - 1 :: size_t)
      = of_nat (Suc p)"
    by simp
  then show "chunk_count env (chunk_room env - of_nat p - 1) = Suc p mod 2 ^ 64"
    by (simp only: chunk_count_def chunk_room_def unat_of_nat) simp
qed

lemma room_used_up:
  assumes "p \<le> unat (w :: size_t)"
  shows "w - of_nat p = 0 \<longleftrightarrow> p = unat w"
proof -
  have "unat w < 2 ^ 64" using unsigned_less[of w, where 'a = nat] by simp
  with assms have p: "p mod 2 ^ 64 = p" by simp
  have "w - of_nat p = 0 \<longleftrightarrow> w = of_nat p" by simp
  also have "\<dots> \<longleftrightarrow> unat w = unat (of_nat p :: size_t)" by (simp add: word_unat_eq_iff)
  also have "\<dots> \<longleftrightarrow> p = unat w" using p by (auto simp: unat_of_nat)
  finally show ?thesis .
qed

lemma room_small:
  "p \<le> unat (w :: size_t) \<Longrightarrow> p mod 2 ^ 64 = p"
  "p < unat (w :: size_t) \<Longrightarrow> Suc p mod 2 ^ 64 = Suc p"
proof -
  have "unat w < 2 ^ 64" using unsigned_less[of w, where 'a = nat] by simp
  then show "p \<le> unat w \<Longrightarrow> p mod 2 ^ 64 = p" "p < unat w \<Longrightarrow> Suc p mod 2 ^ 64 = Suc p"
    by simp_all
qed

text \<open>What the first half of the body returns, by the outcome of \<open>iconv\<close>.\<close>

lemma iconvert_convert_Inr:
  assumes "iconvert_convert env cd ip = Inr (cd', ip', buf, bufavail)"
  defines "r \<equiv> iconv env cd ip (unat (chunk_room env))"
  shows "cd' = ir_cd r"
    and "(ir_errno r = None \<or> ir_errno r = Some E2BIG)
          \<and> ip' = drop (ir_consumed r) ip \<and> buf = ir_produced r
          \<and> chunk_count env bufavail = length (ir_produced r) mod 2 ^ 64
        \<or> ir_errno r \<noteq> None \<and> ir_errno r \<noteq> Some E2BIG
          \<and> ip' = drop (Suc (ir_consumed r)) ip \<and> buf = ir_produced r @ ''?''
          \<and> chunk_count env bufavail = Suc (length (ir_produced r)) mod 2 ^ 64"
proof -
  let ?p = "length (ir_produced r)"
  show "cd' = ir_cd r"
    using assms(1) unfolding iconvert_convert_def Let_def r_def
    by (auto split: if_splits)
  show "(ir_errno r = None \<or> ir_errno r = Some E2BIG)
          \<and> ip' = drop (ir_consumed r) ip \<and> buf = ir_produced r
          \<and> chunk_count env bufavail = length (ir_produced r) mod 2 ^ 64
        \<or> ir_errno r \<noteq> None \<and> ir_errno r \<noteq> Some E2BIG
          \<and> ip' = drop (Suc (ir_consumed r)) ip \<and> buf = ir_produced r @ ''?''
          \<and> chunk_count env bufavail = Suc (length (ir_produced r)) mod 2 ^ 64"
  proof (cases "ir_errno r \<noteq> None \<and> ir_errno r \<noteq> Some E2BIG")
    case True
    with assms(1) have "ip' = drop 1 (drop (ir_consumed r) ip)" "buf = ir_produced r @ ''?''"
      "bufavail = chunk_room env - of_nat ?p - 1"
      unfolding iconvert_convert_def Let_def r_def
      by (auto split: if_splits)
    with True chunk_count_of_nat(2)[of env ?p] show ?thesis by simp
  next
    case False
    with assms(1) have "ip' = drop (ir_consumed r) ip" "buf = ir_produced r"
      "bufavail = chunk_room env - of_nat ?p"
      unfolding iconvert_convert_def Let_def r_def
      by (auto split: if_splits)
    with False chunk_count_of_nat(1)[of env ?p] show ?thesis by auto
  qed
qed

text \<open>The chunk of an iteration is never longer than what lies in the chunk buffer.\<close>

lemma iconvert_convert_count:
  assumes "iconvert_convert env cd ip = Inr (cd', ip', buf, bufavail)"
  shows "chunk_count env bufavail \<le> length buf"
  using iconvert_convert_Inr(2)[OF assms] by (auto intro: order_trans[OF mod_less_eq_dividend])

lemma iconvert_append_inv:
  assumes "length output = output_size" "output_size = out_pos + 1" "count \<le> length buf"
    "count = chunk_count env bufavail"
  shows "iconvert_append env (output, output_size, out_pos) buf bufavail =
           (take out_pos output @ take count buf @ [NUL], out_pos + count + 1, out_pos + count)"
proof -
  let ?n = "output_size + count"
  let ?re = "xreallocarray (junk env) output ?n"
  have re: "?re = output @ map (junk env) [output_size..<?n]" "length ?re = ?n"
    using assms(1) by (simp_all add: xreallocarray_def)
  have tk: "take out_pos ?re = take out_pos output"
    unfolding re(1) using assms(1,2) by simp
  let ?mc = "memcpy_at ?re out_pos buf count"
  have mc: "?mc = take out_pos output @ take count buf @ drop (out_pos + count) ?re"
    unfolding memcpy_at_def tk by (rule refl)
  have l1: "length (take out_pos output @ take count buf) = out_pos + count"
    using assms(1,2,3) by simp
  have l2: "length (drop (out_pos + count) ?re) = 1"
    using re(2) assms(2) by simp
  then obtain x where x: "drop (out_pos + count) ?re = [x]"
    by (cases "drop (out_pos + count) ?re") auto
  have "?mc[out_pos + count := NUL] = take out_pos output @ take count buf @ [NUL]"
    unfolding mc x using l1
    by (metis append.assoc list_update_length nth_list_update_eq list_update_code(2) append_Nil
        list_update_append1 length_append_singleton lessI list_update_overwrite)
  then show ?thesis
    using assms(2,4) by (simp add: iconvert_append_def Let_def)
qed

lemma iconvert_body_acc:
  assumes "iconvert_body env s = Inr s'"
    and "length (ls_output s) = ls_output_size s"
    and "ls_output_size s = ls_out_pos s + 1"
  shows "ls_output s' = take (ls_out_pos s) (ls_output s) @ iconvert_chunk env s @ [NUL]"
    and "ls_output_size s' = ls_out_pos s + length (iconvert_chunk env s) + 1"
    and "ls_out_pos s' = ls_out_pos s + length (iconvert_chunk env s)"
proof -
  from assms(1) obtain cd ip buf bufavail where
    c: "iconvert_convert env (ls_cd s) (ls_ip s) = Inr (cd, ip, buf, bufavail)"
    by (auto simp: iconvert_body_def split: sum.splits)
  have le: "chunk_count env bufavail \<le> length buf" by (rule iconvert_convert_count[OF c])
  have ch: "iconvert_chunk env s = take (chunk_count env bufavail) buf"
    by (simp add: iconvert_chunk_def c)
  have len: "length (iconvert_chunk env s) = chunk_count env bufavail"
    using le by (simp add: ch)
  have ap: "iconvert_append env (ls_output s, ls_output_size s, ls_out_pos s) buf bufavail =
      (take (ls_out_pos s) (ls_output s) @ take (chunk_count env bufavail) buf @ [NUL],
       ls_out_pos s + chunk_count env bufavail + 1, ls_out_pos s + chunk_count env bufavail)"
    by (rule iconvert_append_inv[OF assms(2) assms(3) le refl])
  have s': "s' = \<lparr>ls_cd = cd, ls_ip = ip,
      ls_output = take (ls_out_pos s) (ls_output s) @ take (chunk_count env bufavail) buf @ [NUL],
      ls_output_size = ls_out_pos s + chunk_count env bufavail + 1,
      ls_out_pos = ls_out_pos s + chunk_count env bufavail\<rparr>"
    using assms(1) by (simp add: iconvert_body_def c ap)
  show "ls_output s' = take (ls_out_pos s) (ls_output s) @ iconvert_chunk env s @ [NUL]"
    and "ls_output_size s' = ls_out_pos s + length (iconvert_chunk env s) + 1"
    and "ls_out_pos s' = ls_out_pos s + length (iconvert_chunk env s)"
    unfolding s' using le by (simp_all add: ch)
qed

text \<open>
  One iteration, by the outcome of \<open>iconv\<close>, for a call of \<open>iconv\<close> that stays within
  the room it is given.
\<close>

lemma iconvert_body_Inr:
  assumes "iconvert_convert env (ls_cd s) (ls_ip s) = Inr (cd, ip, buf, bufavail)"
  shows "\<exists>s'. iconvert_body env s = Inr s' \<and> ls_cd s' = cd \<and> ls_ip s' = ip"
proof -
  obtain o1 o2 o3 where ap: "iconvert_append env
      (ls_output s, ls_output_size s, ls_out_pos s) buf bufavail = (o1, o2, o3)"
    by (cases "iconvert_append env
      (ls_output s, ls_output_size s, ls_out_pos s) buf bufavail") auto
  show ?thesis by (simp add: iconvert_body_def assms ap)
qed

lemma iconvert_body_converted:
  fixes env :: "'cd iconv_env" and s :: "'cd loop_state"
  defines "r \<equiv> iconv env (ls_cd s) (ls_ip s) (unat (chunk_room env))"
  assumes ok: "ir_errno r = None \<or> ir_errno r = Some E2BIG"
    and room: "length (ir_produced r) \<le> unat (chunk_room env)"
  shows "\<exists>s'. iconvert_body env s = Inr s' \<and> ls_cd s' = ir_cd r
            \<and> ls_ip s' = drop (ir_consumed r) (ls_ip s)"
    and "iconvert_chunk env s = ir_produced r"
proof -
  have cv: "iconvert_convert env (ls_cd s) (ls_ip s) =
      Inr (ir_cd r, drop (ir_consumed r) (ls_ip s), ir_produced r,
           chunk_room env - of_nat (length (ir_produced r)))"
    using ok unfolding iconvert_convert_def Let_def r_def[symmetric] by auto
  from iconvert_body_Inr[OF cv]
  show "\<exists>s'. iconvert_body env s = Inr s' \<and> ls_cd s' = ir_cd r
            \<and> ls_ip s' = drop (ir_consumed r) (ls_ip s)" .
  have cc: "chunk_count env (chunk_room env - of_nat (length (ir_produced r)))
      = length (ir_produced r)"
    unfolding chunk_count_of_nat(1) by (rule room_small(1)[OF room])
  show "iconvert_chunk env s = ir_produced r"
    by (simp add: iconvert_chunk_def cv cc)
qed

lemma iconvert_body_placeholder:
  fixes env :: "'cd iconv_env" and s :: "'cd loop_state"
  defines "r \<equiv> iconv env (ls_cd s) (ls_ip s) (unat (chunk_room env))"
  assumes err: "ir_errno r \<noteq> None" "ir_errno r \<noteq> Some E2BIG"
    and room: "length (ir_produced r) < unat (chunk_room env)"
    and left: "ir_consumed r < length (ls_ip s)"
  shows "\<exists>s'. iconvert_body env s = Inr s' \<and> ls_cd s' = ir_cd r
            \<and> ls_ip s' = drop 1 (drop (ir_consumed r) (ls_ip s))"
    and "iconvert_chunk env s = ir_produced r @ ''?''"
proof -
  have nz: "chunk_room env - of_nat (length (ir_produced r)) \<noteq> 0"
    using room room_used_up[of "length (ir_produced r)" "chunk_room env"] by simp
  have cv: "iconvert_convert env (ls_cd s) (ls_ip s) =
      Inr (ir_cd r, drop 1 (drop (ir_consumed r) (ls_ip s)), ir_produced r @ ''?'',
           chunk_room env - of_nat (length (ir_produced r)) - 1)"
    using err nz left unfolding iconvert_convert_def Let_def r_def[symmetric] by simp
  from iconvert_body_Inr[OF cv]
  show "\<exists>s'. iconvert_body env s = Inr s' \<and> ls_cd s' = ir_cd r
            \<and> ls_ip s' = drop 1 (drop (ir_consumed r) (ls_ip s))" .
  have cc: "chunk_count env (chunk_room env - of_nat (length (ir_produced r)) - 1)
      = Suc (length (ir_produced r))"
    unfolding chunk_count_of_nat(2) by (rule room_small(2)[OF room])
  show "iconvert_chunk env s = ir_produced r @ ''?''"
    by (simp add: iconvert_chunk_def cv cc)
qed

lemma iconvert_body_faults:
  fixes env :: "'cd iconv_env" and s :: "'cd loop_state"
  defines "r \<equiv> iconv env (ls_cd s) (ls_ip s) (unat (chunk_room env))"
  assumes err: "ir_errno r \<noteq> None" "ir_errno r \<noteq> Some E2BIG"
  shows "length (ir_produced r) = unat (chunk_room env) \<Longrightarrow>
           iconvert_body env s = Inl Chunk_overrun"
    and "length (ir_produced r) < unat (chunk_room env) \<Longrightarrow>
         length (ls_ip s) \<le> ir_consumed r \<Longrightarrow> iconvert_body env s = Inl Input_overrun"
proof -
  show "iconvert_body env s = Inl Chunk_overrun"
    if "length (ir_produced r) = unat (chunk_room env)"
  proof -
    have "chunk_room env - of_nat (length (ir_produced r)) = 0"
      using that by simp
    then show ?thesis
      using err unfolding iconvert_body_def iconvert_convert_def Let_def r_def[symmetric]
      by simp
  qed
  show "iconvert_body env s = Inl Input_overrun"
    if "length (ir_produced r) < unat (chunk_room env)" "length (ls_ip s) \<le> ir_consumed r"
  proof -
    have "chunk_room env - of_nat (length (ir_produced r)) \<noteq> 0"
      using that(1) room_used_up[of "length (ir_produced r)" "chunk_room env"] by simp
    then show ?thesis
      using err that(2) unfolding iconvert_body_def iconvert_convert_def Let_def r_def[symmetric]
      by simp
  qed
qed

lemma ascii_room: "unat (chunk_room (ascii_env b)) = 1023"
  by (simp add: chunk_room_def ascii_env_def)

lemma iconvert_obs_acc:
  assumes "iconvert_obs env cd0 inp chunks s"
  shows "ls_output s = concat chunks @ [NUL] \<and> ls_output_size s = length (concat chunks) + 1
       \<and> ls_out_pos s = length (concat chunks)"
  using assms
proof (induction rule: iconvert_obs.induct)
  case obs_init
  show ?case by (simp add: iconvert_init_def)
next
  case (obs_append chunks s s')
  then have a: "length (ls_output s) = ls_output_size s" "ls_output_size s = ls_out_pos s + 1"
    by simp_all
  from iconvert_body_acc[OF obs_append(3) a] obs_append.IH show ?case by simp
qed

lemma iconvert_loop_obs:
  assumes "iconvert_loop env s = Some r"
  shows "\<forall>s' chunks. r = Inr s' \<longrightarrow> iconvert_obs env cd0 inp chunks s \<longrightarrow>
           (\<exists>chunks'. iconvert_obs env cd0 inp chunks' s')"
proof (rule iconvert_loop.raw_induct[OF _ assms])
  fix loop :: "'a iconv_env \<Rightarrow> 'a loop_state \<Rightarrow> (fault + 'a loop_state) option"
    and env s r
  assume IH: "\<And>e t y. loop e t = Some y \<Longrightarrow>
      \<forall>s' chunks. y = Inr s' \<longrightarrow> iconvert_obs e cd0 inp chunks t \<longrightarrow>
           (\<exists>chunks'. iconvert_obs e cd0 inp chunks' s')"
    and eq: "(if 0 < length (ls_ip s)
      then case iconvert_body env s of Inl f \<Rightarrow> Some (Inl f) | Inr s' \<Rightarrow> loop env s'
      else Some (Inr s)) = Some r"
  show "\<forall>s' chunks. r = Inr s' \<longrightarrow> iconvert_obs env cd0 inp chunks s \<longrightarrow>
           (\<exists>chunks'. iconvert_obs env cd0 inp chunks' s')"
  proof (intro allI impI)
    fix s' chunks
    assume r: "r = Inr s'" and o: "iconvert_obs env cd0 inp chunks s"
    show "\<exists>chunks'. iconvert_obs env cd0 inp chunks' s'"
    proof (cases "0 < length (ls_ip s)")
      case False
      with eq r have "s' = s" by simp
      with o show ?thesis by blast
    next
      case True
      with eq r obtain s1 where b: "iconvert_body env s = Inr s1"
        and l: "loop env s1 = Some (Inr s')"
        by (auto split: sum.splits)
      from obs_append[OF o True b] IH[OF l] show ?thesis by blast
    qed
  qed
qed



subsection \<open>The conversion loop\<close>

text \<open>The loop, one iteration unrolled.\<close>

lemma iconvert_loop_step:
  "0 < length (ls_ip s) \<Longrightarrow> iconvert_loop env s =
     (case iconvert_body env s of Inl f \<Rightarrow> Some (Inl f) | Inr s' \<Rightarrow> iconvert_loop env s')"
  by (subst iconvert_loop.simps) simp

text \<open>
  With 1023 convertible bytes before a byte that cannot be converted, on a platform
  whose \<open>BUFSIZ\<close> is 1024: the error arrives when the chunk buffer is full.
\<close>

lemma ascii_iconv_full:
  "ascii_iconv () (replicate 1023 (CHR ''a'') @ [CHR 0xC3]) 1023 =
      \<lparr>ir_cd = (), ir_consumed = 1023, ir_produced = replicate 1023 (CHR ''a''),
       ir_errno = Some EILSEQ\<rparr>"
proof -
  let ?inp = "replicate 1023 (CHR ''a'') @ [CHR 0xC3]"
  have "takeWhile (\<lambda>c. (of_char c :: nat) < 128) ?inp =
      replicate 1023 (CHR ''a'') @ takeWhile (\<lambda>c. (of_char c :: nat) < 128) [CHR 0xC3]"
    by (rule takeWhile_append2) simp
  then have t: "takeWhile (\<lambda>c. (of_char c :: nat) < 128) ?inp = replicate 1023 (CHR ''a'')"
    by simp
  show ?thesis unfolding ascii_iconv_def Let_def t by simp
qed

lemma iconvert_body_full:
  "iconvert_body (ascii_env False) (iconvert_init () (replicate 1023 (CHR ''a'') @ [CHR 0xC3]))
     = Inl Chunk_overrun"
proof -
  let ?inp = "replicate 1023 (CHR ''a'') @ [CHR 0xC3]"
  let ?s = "iconvert_init () ?inp"
  have i: "ls_cd ?s = ()" "ls_ip ?s = ?inp" by (simp_all add: iconvert_init_def)
  have r: "iconv (ascii_env False) () ?inp 1023
      = \<lparr>ir_cd = (), ir_consumed = 1023, ir_produced = replicate 1023 (CHR ''a''),
         ir_errno = Some EILSEQ\<rparr>"
    using ascii_iconv_full by (simp add: ascii_env_def)
  show ?thesis
    using iconvert_body_faults(1)[of "ascii_env False" ?s] unfolding i ascii_room r by simp
qed

text \<open>
  Claim C3 on the code. The iteration that meets an error other than \<open>E2BIG\<close> moves
  the input cursor by one byte and counts \<open>input_len\<close> down without looking whether
  a byte is left, and stores the placeholder without looking whether the chunk
  buffer has room. On the platform \<open>skip_env\<close>, asked for \<open>ASCII//IGNORE\<close> from
  \<open>UTF-8\<close> on the two bytes \<open>a\<close>, 0xFF: \<open>iconv\<close> consumes both bytes, writes \<open>a\<close> and
  reports \<open>EILSEQ\<close>; the iteration then counts \<open>input_len\<close> down from 0, so the input
  left does not get shorter and the loop does not stop at the end of the input. On
  the platform \<open>ascii_env\<close>, on 1023 bytes \<open>a\<close> followed by 0xC3: \<open>iconv\<close> fills the
  1023 bytes of room and reports \<open>EILSEQ\<close>; the placeholder takes the last byte of the
  chunk buffer and the terminator is stored behind the buffer.
\<close>

theorem iconvert_loop_overruns:
  "iconv skip_env () [CHR ''a'', CHR 0xFF] (unat (chunk_room skip_env)) =
      \<lparr>ir_cd = (), ir_consumed = 2, ir_produced = ''a'', ir_errno = Some EILSEQ\<rparr>
   \<and> iconvert_body skip_env (iconvert_init () [CHR ''a'', CHR 0xFF]) = Inl Input_overrun
   \<and> iconvert skip_env (Some [CHR ''a'', CHR 0xFF]) ''UTF-8'' ''ASCII'' ICONV_IGNORE =
       ([Iconv_open ''ASCII//IGNORE'' ''UTF-8''], Some (Inl Input_overrun))
   \<and> iconv (ascii_env False) () (replicate 1023 (CHR ''a'') @ [CHR 0xC3])
        (unat (chunk_room (ascii_env False))) =
      \<lparr>ir_cd = (), ir_consumed = 1023, ir_produced = replicate 1023 (CHR ''a''),
       ir_errno = Some EILSEQ\<rparr>
   \<and> iconvert_loop (ascii_env False)
        (iconvert_init () (replicate 1023 (CHR ''a'') @ [CHR 0xC3])) = Some (Inl Chunk_overrun)"
proof (intro conjI)
  show "iconv skip_env () [CHR ''a'', CHR 0xFF] (unat (chunk_room skip_env)) =
      \<lparr>ir_cd = (), ir_consumed = 2, ir_produced = ''a'', ir_errno = Some EILSEQ\<rparr>"
    by code_simp
  show "iconvert_body skip_env (iconvert_init () [CHR ''a'', CHR 0xFF]) = Inl Input_overrun"
    by code_simp
  show "iconvert skip_env (Some [CHR ''a'', CHR 0xFF]) ''UTF-8'' ''ASCII'' ICONV_IGNORE =
       ([Iconv_open ''ASCII//IGNORE'' ''UTF-8''], Some (Inl Input_overrun))"
    by code_simp
  show "iconv (ascii_env False) () (replicate 1023 (CHR ''a'') @ [CHR 0xC3])
        (unat (chunk_room (ascii_env False))) =
      \<lparr>ir_cd = (), ir_consumed = 1023, ir_produced = replicate 1023 (CHR ''a''),
       ir_errno = Some EILSEQ\<rparr>"
    unfolding ascii_room using ascii_iconv_full by (simp add: ascii_env_def)
  show "iconvert_loop (ascii_env False)
        (iconvert_init () (replicate 1023 (CHR ''a'') @ [CHR 0xC3])) = Some (Inl Chunk_overrun)"
    by (subst iconvert_loop.simps) (simp add: iconvert_body_full, simp add: iconvert_init_def)
qed

subsection \<open>Opening the converter\<close>

lemma qualified_target_eq: "qualified_target to mode = qualified_target_spec to mode"
  by (simp add: qualified_target_def qualified_target_spec_def snprintf_def Let_def)

lemma open_converter_events:
  "fst (open_converter env tocode from) =
     map (\<lambda>c. Iconv_open (fst c) (snd c))
       (takeWhile (open_fails env) [(tocode, from), ([], from), (tocode, [])]
        @ take 1 (dropWhile (open_fails env) [(tocode, from), ([], from), (tocode, [])]))"
  by (auto simp: open_converter_def open_fails_def split: sum.splits)

lemma open_converter_result:
  "snd (open_converter env tocode from) =
     (case find (\<lambda>c. \<not> open_fails env c) [(tocode, from), ([], from), (tocode, [])] of
        Some c \<Rightarrow> iconv_open env (fst c) (snd c)
      | None \<Rightarrow> iconv_open env tocode [])"
  by (auto simp: open_converter_def open_fails_def split: sum.splits)

lemma iconvert_open_events:
  "filter is_open_event (fst (iconvert env (Some inp) from to mode)) =
     fst (open_converter env (qualified_target to mode) from)"
proof -
  have f: "filter is_open_event (fst (open_converter env tocode from)) =
      fst (open_converter env tocode from)" for tocode
    by (auto simp: open_converter_def split: sum.splits)
  obtain opened r where o: "open_converter env (qualified_target to mode) from = (opened, r)"
    by (cases "open_converter env (qualified_target to mode) from") auto
  from f[of "qualified_target to mode"] o have fo: "filter is_open_event opened = opened" by simp
  show ?thesis
    unfolding iconvert_def Let_def o
    by (auto simp: fo split: sum.splits option.splits)
qed

text \<open>
  Claim C2. The target name asked for is the one of the specification. The calls of
  \<open>iconv_open\<close> that \<open>_iconvert\<close> makes on an input that is not NULL are, in order, the
  candidates of the specification up to and including the first that succeeds (all
  three when none does). The converter is the result of that first success, and the
  conversion then runs on it.
\<close>

theorem iconvert_open_fallback:
  "qualified_target to mode = qualified_target_spec to mode
   \<and> filter is_open_event (fst (iconvert env (Some inp) from to mode)) =
       map (\<lambda>c. Iconv_open (fst c) (snd c))
         (takeWhile (open_fails env) (open_candidates from to mode)
          @ take 1 (dropWhile (open_fails env) (open_candidates from to mode)))
   \<and> snd (open_converter env (qualified_target to mode) from) =
       (case find (\<lambda>c. \<not> open_fails env c) (open_candidates from to mode) of
          Some c \<Rightarrow> iconv_open env (fst c) (snd c)
        | None \<Rightarrow> iconv_open env (qualified_target_spec to mode) [])
   \<and> (\<forall>cd. snd (open_converter env (qualified_target to mode) from) = Inr cd \<longrightarrow>
         (\<exists>opened. iconvert env (Some inp) from to mode =
            (case iconvert_loop env (iconvert_init cd inp) of
               None \<Rightarrow> (opened, None)
             | Some (Inl f) \<Rightarrow> (opened, Some (Inl f))
             | Some (Inr s) \<Rightarrow>
                 (case iconv_close env (ls_cd s) of
                    Some e \<Rightarrow>
                      (opened @ [Iconv_close, Log_syserr e ''iconv_close'', Xfree_output,
                                 Xfree_tocode],
                       Some (Inr (Xstrdup inp)))
                  | None \<Rightarrow>
                      (opened @ [Iconv_close, Xfree_tocode],
                       Some (Inr (Output (c_str (ls_output s)))))))))"
proof (intro conjI allI impI)
  show "qualified_target to mode = qualified_target_spec to mode"
    by (rule qualified_target_eq)
  show "filter is_open_event (fst (iconvert env (Some inp) from to mode)) =
       map (\<lambda>c. Iconv_open (fst c) (snd c))
         (takeWhile (open_fails env) (open_candidates from to mode)
          @ take 1 (dropWhile (open_fails env) (open_candidates from to mode)))"
    unfolding iconvert_open_events open_converter_events open_candidates_def qualified_target_eq
    by (rule refl)
  show "snd (open_converter env (qualified_target to mode) from) =
       (case find (\<lambda>c. \<not> open_fails env c) (open_candidates from to mode) of
          Some c \<Rightarrow> iconv_open env (fst c) (snd c)
        | None \<Rightarrow> iconv_open env (qualified_target_spec to mode) [])"
    unfolding open_converter_result open_candidates_def qualified_target_eq
    by (rule refl)
next
  fix cd
  assume "snd (open_converter env (qualified_target to mode) from) = Inr cd"
  then obtain opened where
    "open_converter env (qualified_target to mode) from = (opened, Inr cd)"
    by (cases "open_converter env (qualified_target to mode) from") auto
  then show "\<exists>opened. iconvert env (Some inp) from to mode =
            (case iconvert_loop env (iconvert_init cd inp) of
               None \<Rightarrow> (opened, None)
             | Some (Inl f) \<Rightarrow> (opened, Some (Inl f))
             | Some (Inr s) \<Rightarrow>
                 (case iconv_close env (ls_cd s) of
                    Some e \<Rightarrow>
                      (opened @ [Iconv_close, Log_syserr e ''iconv_close'', Xfree_output,
                                 Xfree_tocode],
                       Some (Inr (Xstrdup inp)))
                  | None \<Rightarrow>
                      (opened @ [Iconv_close, Xfree_tocode],
                       Some (Inr (Output (c_str (ls_output s)))))))"
    by (intro exI[of _ opened]) (simp add: iconvert_def Let_def)
qed

text \<open>
  The theorem with \<open>ascii_env\<close>, from \<open>ASCII\<close> to \<open>LATIN1\<close> in the mode
  ReplaceWithPlaceholder: the first call fails, the second succeeds, there is no third.
  The target names of the two other modes carry their suffixes.
\<close>

theorem iconvert_open_fallback_witness:
  "open_fails (ascii_env False) (''LATIN1'', ''ASCII'')
   \<and> \<not> open_fails (ascii_env False) ([], ''ASCII'')
   \<and> filter is_open_event
        (fst (iconvert (ascii_env False) (Some ''hi'') ''ASCII'' ''LATIN1'' ICONV_REPLACE)) =
       [Iconv_open ''LATIN1'' ''ASCII'', Iconv_open [] ''ASCII'']
   \<and> snd (open_converter (ascii_env False) (qualified_target ''LATIN1'' ICONV_REPLACE) ''ASCII'')
       = Inr ()
   \<and> qualified_target ''LATIN1'' ICONV_TRANSLIT = ''LATIN1//TRANSLIT''
   \<and> qualified_target ''LATIN1'' ICONV_IGNORE = ''LATIN1//IGNORE''"
proof -
  have c: "open_candidates ''ASCII'' ''LATIN1'' ICONV_REPLACE =
      [(''LATIN1'', ''ASCII''), ([], ''ASCII''), (''LATIN1'', [])]"
    by (simp add: open_candidates_def qualified_target_spec_def ICONV_REPLACE_def
        ICONV_TRANSLIT_def ICONV_IGNORE_def)
  have f: "open_fails (ascii_env False) (''LATIN1'', ''ASCII'')"
    "\<not> open_fails (ascii_env False) ([], ''ASCII'')"
    by (simp_all add: open_fails_def ascii_env_def)
  have o: "iconv_open (ascii_env False) [] ''ASCII'' = Inr ()"
    by (simp add: ascii_env_def)
  have s: "qualified_target_spec ''LATIN1'' ICONV_TRANSLIT = ''LATIN1//TRANSLIT''"
    "qualified_target_spec ''LATIN1'' ICONV_IGNORE = ''LATIN1//IGNORE''"
    by (simp_all add: qualified_target_spec_def ICONV_TRANSLIT_def ICONV_IGNORE_def)
  note t = iconvert_open_fallback[of "''LATIN1''" ICONV_REPLACE "ascii_env False" "''hi''" "''ASCII''"]
  have e: "filter is_open_event
        (fst (iconvert (ascii_env False) (Some ''hi'') ''ASCII'' ''LATIN1'' ICONV_REPLACE)) =
       [Iconv_open ''LATIN1'' ''ASCII'', Iconv_open [] ''ASCII'']"
    using t[THEN conjunct2, THEN conjunct1] unfolding c using f by simp
  have r: "snd (open_converter (ascii_env False) (qualified_target ''LATIN1'' ICONV_REPLACE) ''ASCII'')
       = Inr ()"
    using t[THEN conjunct2, THEN conjunct2, THEN conjunct1] unfolding c using f o by simp
  have q1: "qualified_target ''LATIN1'' ICONV_TRANSLIT = ''LATIN1//TRANSLIT''"
    using iconvert_open_fallback[of "''LATIN1''" ICONV_TRANSLIT "ascii_env False" "''hi''"
        "''ASCII''", THEN conjunct1] unfolding s .
  have q2: "qualified_target ''LATIN1'' ICONV_IGNORE = ''LATIN1//IGNORE''"
    using iconvert_open_fallback[of "''LATIN1''" ICONV_IGNORE "ascii_env False" "''hi''"
        "''ASCII''", THEN conjunct1] unfolding s .
  from f e r q1 q2 show ?thesis by blast
qed

subsection \<open>Failures of \<open>iconv_open\<close> and \<open>iconv_close\<close>\<close>

text \<open>
  Claim C1. When the three calls of \<open>iconv_open\<close> fail, \<open>_iconvert\<close> frees the target
  name, logs the \<open>errno\<close> of the last call and returns a fresh copy of its input. When
  the loop has ended and \<open>iconv_close\<close> fails, it logs that \<open>errno\<close>, frees the
  accumulator and the target name and returns a fresh copy of its input. In both
  cases it returns (the outcome is neither a fault nor a loop without end) and what
  it returns is not the accumulator.
\<close>

theorem iconvert_failure_returns_input:
  "(open_fails env (qualified_target to mode, from) \<and> open_fails env ([], from)
      \<and> iconv_open env (qualified_target to mode) [] = Inl e
     \<longrightarrow> iconvert env (Some inp) from to mode =
          ([Iconv_open (qualified_target to mode) from, Iconv_open [] from,
            Iconv_open (qualified_target to mode) [], Xfree_tocode,
            Log_syserr e ''iconv_open''],
           Some (Inr (Xstrdup inp))))
   \<and> (\<forall>cd s. snd (open_converter env (qualified_target to mode) from) = Inr cd
          \<and> iconvert_loop env (iconvert_init cd inp) = Some (Inr s)
          \<and> iconv_close env (ls_cd s) = Some e
     \<longrightarrow> iconvert env (Some inp) from to mode =
          (fst (open_converter env (qualified_target to mode) from)
             @ [Iconv_close, Log_syserr e ''iconv_close'', Xfree_output, Xfree_tocode],
           Some (Inr (Xstrdup inp))))"
proof (intro conjI allI impI)
  assume "open_fails env (qualified_target to mode, from) \<and> open_fails env ([], from)
      \<and> iconv_open env (qualified_target to mode) [] = Inl e"
  then have "open_converter env (qualified_target to mode) from =
      ([Iconv_open (qualified_target to mode) from, Iconv_open [] from,
        Iconv_open (qualified_target to mode) []], Inl e)"
    by (auto simp: open_converter_def open_fails_def isl_def)
  then show "iconvert env (Some inp) from to mode =
          ([Iconv_open (qualified_target to mode) from, Iconv_open [] from,
            Iconv_open (qualified_target to mode) [], Xfree_tocode,
            Log_syserr e ''iconv_open''],
           Some (Inr (Xstrdup inp)))"
    by (simp add: iconvert_def Let_def)
next
  fix cd s
  assume a: "snd (open_converter env (qualified_target to mode) from) = Inr cd
          \<and> iconvert_loop env (iconvert_init cd inp) = Some (Inr s)
          \<and> iconv_close env (ls_cd s) = Some e"
  then obtain opened where
    o: "open_converter env (qualified_target to mode) from = (opened, Inr cd)"
    by (cases "open_converter env (qualified_target to mode) from") auto
  with a show "iconvert env (Some inp) from to mode =
          (fst (open_converter env (qualified_target to mode) from)
             @ [Iconv_close, Log_syserr e ''iconv_close'', Xfree_output, Xfree_tocode],
           Some (Inr (Xstrdup inp)))"
    by (simp add: iconvert_def Let_def)
qed

text \<open>
  The theorem with \<open>ascii_env\<close>: from \<open>UTF-8\<close>, which it does not know, every
  \<open>iconv_open\<close> fails; and with \<open>close_fails\<close> set, \<open>iconv_close\<close> fails after a
  conversion that went through.
\<close>

theorem iconvert_failure_returns_input_witness:
  "open_fails (ascii_env False) (qualified_target ''LATIN1'' ICONV_IGNORE, ''UTF-8'')
   \<and> open_fails (ascii_env False) ([], ''UTF-8'')
   \<and> iconv_open (ascii_env False) (qualified_target ''LATIN1'' ICONV_IGNORE) [] = Inl EINVAL
   \<and> iconvert (ascii_env False) (Some ''hi'') ''UTF-8'' ''LATIN1'' ICONV_IGNORE =
       ([Iconv_open ''LATIN1//IGNORE'' ''UTF-8'', Iconv_open [] ''UTF-8'',
         Iconv_open ''LATIN1//IGNORE'' [], Xfree_tocode, Log_syserr EINVAL ''iconv_open''],
        Some (Inr (Xstrdup ''hi'')))
   \<and> iconv_close (ascii_env True) () = Some (Errno 9)
   \<and> iconvert (ascii_env True) (Some ''hi'') ''ASCII'' ''ASCII'' ICONV_REPLACE =
       ([Iconv_open ''ASCII'' ''ASCII'', Iconv_close, Log_syserr (Errno 9) ''iconv_close'',
         Xfree_output, Xfree_tocode],
        Some (Inr (Xstrdup ''hi'')))"
proof -
  have q: "qualified_target ''LATIN1'' ICONV_IGNORE = ''LATIN1//IGNORE''"
    "qualified_target ''ASCII'' ICONV_REPLACE = ''ASCII''"
    by code_simp+
  have f: "open_fails (ascii_env False) (''LATIN1//IGNORE'', ''UTF-8'')"
    "open_fails (ascii_env False) ([], ''UTF-8'')"
    "iconv_open (ascii_env False) ''LATIN1//IGNORE'' [] = Inl EINVAL"
    by (simp_all add: open_fails_def ascii_env_def)
  have a: "iconvert (ascii_env False) (Some ''hi'') ''UTF-8'' ''LATIN1'' ICONV_IGNORE =
       ([Iconv_open ''LATIN1//IGNORE'' ''UTF-8'', Iconv_open [] ''UTF-8'',
         Iconv_open ''LATIN1//IGNORE'' [], Xfree_tocode, Log_syserr EINVAL ''iconv_open''],
        Some (Inr (Xstrdup ''hi'')))"
    using iconvert_failure_returns_input[of "ascii_env False" "''LATIN1''" ICONV_IGNORE
        "''UTF-8''" EINVAL "''hi''"] f
    unfolding q by blast
  have o: "open_converter (ascii_env True) ''ASCII'' ''ASCII'' = ([Iconv_open ''ASCII'' ''ASCII''], Inr ())"
    by (simp add: open_converter_def ascii_env_def)
  have c: "iconv_close (ascii_env True) cd = Some (Errno 9)" for cd
    by (simp add: ascii_env_def)
  have "iconvert_loop (ascii_env True) (iconvert_init () ''hi'') =
      Some (Inr \<lparr>ls_cd = (), ls_ip = [], ls_output = ''hi'' @ [NUL], ls_output_size = 3,
                  ls_out_pos = 2\<rparr>)"
    by code_simp
  then obtain s where l: "iconvert_loop (ascii_env True) (iconvert_init () ''hi'') = Some (Inr s)"
    by blast
  have b: "iconvert (ascii_env True) (Some ''hi'') ''ASCII'' ''ASCII'' ICONV_REPLACE =
       ([Iconv_open ''ASCII'' ''ASCII'', Iconv_close, Log_syserr (Errno 9) ''iconv_close'',
         Xfree_output, Xfree_tocode],
        Some (Inr (Xstrdup ''hi'')))"
    using iconvert_failure_returns_input[of "ascii_env True" "''ASCII''" ICONV_REPLACE
        "''ASCII''" "Errno 9" "''hi''"] l c[of "ls_cd s"]
    unfolding q o by simp
  from f a b c[of "()"] show ?thesis unfolding q by simp
qed

subsection \<open>Other mode selectors\<close>



end
